theory Spec2Isabelle
  imports Complex_Main
begin

section \<open>JavaScript numbers\<close>

text \<open>
  The prices and sizes of \<^verbatim>\<open>CoinbaseWebSocket.ts\<close> are JavaScript numbers produced by
  \<^verbatim>\<open>parseFloat\<close>: a finite value, one of the two infinities, or \<^verbatim>\<open>NaN\<close> (what
  \<^verbatim>\<open>parseFloat\<close> returns for a missing or non-numeric field). A finite number is given
  by its real value; the two zeros are not told apart.
\<close>

datatype jsnum = NaN | NegInf | Fin real | PosInf

text \<open>\<^verbatim>\<open>a <= b\<close>: false as soon as one side is \<^verbatim>\<open>NaN\<close>.\<close>

fun js_le :: "jsnum \<Rightarrow> jsnum \<Rightarrow> bool" where
  "js_le NaN b = False"
| "js_le a NaN = False"
| "js_le NegInf b = True"
| "js_le a PosInf = True"
| "js_le (Fin x) (Fin y) = (x \<le> y)"
| "js_le a b = False"

text \<open>\<^verbatim>\<open>Math.max(a, b)\<close> and \<^verbatim>\<open>Math.min(a, b)\<close>: \<^verbatim>\<open>NaN\<close> when an argument is.\<close>

definition js_max :: "jsnum \<Rightarrow> jsnum \<Rightarrow> jsnum" where
  "js_max a b = (if a = NaN \<or> b = NaN then NaN else if js_le a b then b else a)"

definition js_min :: "jsnum \<Rightarrow> jsnum \<Rightarrow> jsnum" where
  "js_min a b = (if a = NaN \<or> b = NaN then NaN else if js_le a b then a else b)"

text \<open>
  The sum of two finite numbers is the IEEE-754 binary64 value nearest to the exact sum,
  ties going to the even significand, and an infinity when that value is out of range.
  A binary64 number has a significand of 53 bits; the unit in the last place of \<open>x\<close> is
  \<open>2\<close> to the power \<open>\<lfloor>log\<^sub>2 |x|\<rfloor> - 52\<close>, and \<open>2\<close> to the power \<open>-1074\<close> for the
  subnormal numbers. A result of magnitude \<open>2 ^ 1024\<close> or more is an infinity.
\<close>

definition ulp_exponent :: "real \<Rightarrow> int" where
  "ulp_exponent x = max (\<lfloor>log 2 \<bar>x\<bar>\<rfloor> - 52) (- 1074)"

definition round_half_even :: "real \<Rightarrow> int" where
  "round_half_even y =
     (let f = \<lfloor>y\<rfloor>
      in if y - of_int f < 1 / 2 then f
         else if 1 / 2 < y - of_int f then f + 1
         else if even f then f else f + 1)"

definition round_double :: "real \<Rightarrow> jsnum" where
  "round_double x =
     (if x = 0 then Fin 0
      else
        let q = 2 powr of_int (ulp_exponent x);
            y = of_int (round_half_even (x / q)) * q
        in if 2 ^ 1024 \<le> \<bar>y\<bar> then (if 0 < x then PosInf else NegInf) else Fin y)"

text \<open>\<^verbatim>\<open>a + b\<close> on numbers.\<close>

fun js_add :: "jsnum \<Rightarrow> jsnum \<Rightarrow> jsnum" where
  "js_add NaN b = NaN"
| "js_add a NaN = NaN"
| "js_add PosInf NegInf = NaN"
| "js_add NegInf PosInf = NaN"
| "js_add PosInf b = PosInf"
| "js_add a PosInf = PosInf"
| "js_add NegInf b = NegInf"
| "js_add a NegInf = NegInf"
| "js_add (Fin x) (Fin y) = round_double (x + y)"

section \<open>Times\<close>

text \<open>
  The times of the class (\<^verbatim>\<open>lastTickTime\<close>, \<^verbatim>\<open>klineStartTime\<close>, \<^verbatim>\<open>openTime\<close>,
  \<^verbatim>\<open>closeTime\<close>) are JavaScript numbers too: an integer count of milliseconds, or
  \<^verbatim>\<open>NaN\<close>, here \<open>NaT\<close>. On the integers that occur (of magnitude at most
  \<open>8.64 * 10 ^ 15 + 60000\<close>) division by 60000, \<^verbatim>\<open>Math.floor\<close>, multiplication by 60000
  and addition of 60000 are exact in binary64.
\<close>

datatype jstime = NaT | Ms int

definition MAX_TIME :: int where
  "MAX_TIME = 8640000000000000"

text \<open>
  \<^verbatim>\<open>new Date(data.time).getTime()\<close>: the argument is the instant the \<^verbatim>\<open>time\<close> field
  of the message denotes, in milliseconds since the epoch, or nothing when the field is
  missing or does not parse. A date is at most \<open>8.64 * 10 ^ 15\<close> milliseconds away from
  the epoch; its time is \<^verbatim>\<open>NaN\<close> otherwise.
\<close>

fun getTime :: "int option \<Rightarrow> jstime" where
  "getTime (Some t) = (if - MAX_TIME \<le> t \<and> t \<le> MAX_TIME then Ms t else NaT)"
| "getTime None = NaT"

text \<open>\<^verbatim>\<open>a <= b\<close> and \<^verbatim>\<open>a > b\<close>: both false as soon as one side is \<^verbatim>\<open>NaN\<close>.\<close>

fun t_le :: "jstime \<Rightarrow> jstime \<Rightarrow> bool" where
  "t_le (Ms a) (Ms b) = (a \<le> b)"
| "t_le a b = False"

fun t_gt :: "jstime \<Rightarrow> jstime \<Rightarrow> bool" where
  "t_gt (Ms a) (Ms b) = (b < a)"
| "t_gt a b = False"

text \<open>\<^verbatim>\<open>Math.floor(time / 60000) * 60000\<close>\<close>

definition bucket :: "int \<Rightarrow> int" where
  "bucket t = (t div 60000) * 60000"

fun minuteOf :: "jstime \<Rightarrow> jstime" where
  "minuteOf (Ms t) = Ms (bucket t)"
| "minuteOf NaT = NaT"

text \<open>\<^verbatim>\<open>a + n\<close> on a time.\<close>

fun t_add :: "jstime \<Rightarrow> int \<Rightarrow> jstime" where
  "t_add (Ms t) n = Ms (t + n)"
| "t_add NaT n = NaT"

text \<open>What a \<^verbatim>\<open>catch\<close> clause can receive: an \<^verbatim>\<open>Error\<close> with its name, or any other value.\<close>

datatype thrown = JsError string | NonError

text \<open>
  \<^verbatim>\<open>new Date(t).toISOString()\<close> throws a \<^verbatim>\<open>RangeError\<close> when \<open>t\<close> is \<^verbatim>\<open>NaN\<close> or out
  of the range of dates; otherwise the string it returns is determined by \<open>t\<close>, which
  stands for it here.
\<close>

fun toISOString :: "jstime \<Rightarrow> thrown + int" where
  "toISOString (Ms t) =
     (if - MAX_TIME \<le> t \<and> t \<le> MAX_TIME then Inr t else Inl (JsError ''RangeError''))"
| "toISOString NaT = Inl (JsError ''RangeError'')"

section \<open>Data\<close>

text \<open>
  A ticker message: the instant its \<^verbatim>\<open>time\<close> field denotes, if it does, and its price
  and size after \<^verbatim>\<open>parseFloat(data.price)\<close> and \<^verbatim>\<open>parseFloat(data.last_size)\<close>.
\<close>

record ticker =
  time :: "int option"
  price :: jsnum
  last_size :: jsnum

text \<open>
  \<^verbatim>\<open>BaseKline\<close> and \<^verbatim>\<open>ExchangeKline\<close> are declared in \<^verbatim>\<open>../types/kline\<close>; their
  fields are those of the object literal in \<^verbatim>\<open>processTickerUpdate\<close>. The field
  \<^verbatim>\<open>open\<close> is spelled \<open>open_price\<close>.
\<close>

record base_kline =
  symbol :: string
  interval :: string
  openTime :: jstime
  closeTime :: jstime
  open_price :: jsnum
  high :: jsnum
  low :: jsnum
  close :: jsnum
  volume :: jsnum
  trades :: nat

record exchange_kline = base_kline +
  exchange :: string

text \<open>How the promise of \<^verbatim>\<open>klineService.saveKline\<close> settles.\<close>

datatype save_outcome = Saved | Rejected thrown

datatype message = Malformed | TickerMsg ticker | OtherMsg

text \<open>
  The lines printed. A time printed with \<^verbatim>\<open>toISOString\<close> is given by its millisecond
  count; \<open>LogSaved\<close> and \<open>LogKline\<close> carry the fields of the candle as they are when
  the line is printed, \<open>LogKline\<close> also \<^verbatim>\<open>this.klines.length\<close>.
\<close>

datatype console =
    LogConnecting
  | LogConnected
  | LogSubscribed
  | LogWaiting
  | LogCompleting int
  | LogSaved exchange_kline
  | LogKline exchange_kline nat
  | LogStarted int
  | LogClosed
  | LogReconnecting nat
  | ErrEstablish
  | ErrProcessing
  | ErrSaveFailed thrown
  | ErrWebSocket
  | ErrDetails
  | ErrMaxReached

text \<open>
  The calls the class makes on its collaborators and on its array, in the order it makes
  them. Objects and arrays are passed by reference: \<open>Unshift\<close> and \<open>SaveKline\<close> name the
  candle object by its address, \<open>ReturnArray\<close> the array. \<open>SaveKline\<close> also carries
  the fields the object has when \<^verbatim>\<open>saveKline\<close> is called with it. \<open>Unhandled\<close> is the
  rejection of the promise of \<^verbatim>\<open>processTickerUpdate\<close>, which \<^verbatim>\<open>handleMessage\<close>
  discards with \<^verbatim>\<open>void\<close>.
\<close>

datatype action =
    Console console
  | NewWebSocket nat
  | WsSend nat
  | WsCloseCall nat
  | SetTimeout nat
  | Unshift nat
  | Pop
  | SaveKline nat exchange_kline
  | ReturnArray nat
  | Unhandled thrown

text \<open>
  The local variables of a \<^verbatim>\<open>processTickerUpdate\<close> activation that is suspended at
  \<^verbatim>\<open>await this.klineService.saveKline(completeKline)\<close>; \<^verbatim>\<open>completeKline\<close> is a
  reference to the completed candle.
\<close>

record activation =
  a_currentMinute :: jstime
  a_price :: jsnum
  a_size :: jsnum
  a_completeKline :: nat

text \<open>
  The fields of the singleton, and what the event loop holds for it. The store has the
  candle objects made by \<^verbatim>\<open>{ ...this.currentKline, exchange: this.EXCHANGE }\<close> and the
  arrays, here lists of addresses of candle objects; the address of an object or of an
  array is its index in the store, and nothing is ever freed. The private \<^verbatim>\<open>klines\<close>
  is a reference to an array. The object of \<^verbatim>\<open>currentKline\<close> is never handed out (what
  leaves the class is the copy made when the candle is completed), so it is held by
  value. Then come the suspended activation, the number of reconnect timers that have not
  fired yet and the number of sockets created so far.
\<close>

record state =
  ws :: "nat option"
  reconnectAttempts :: nat
  currentKline :: "base_kline option"
  klineStartTime :: jstime
  klines :: nat
  lastTickTime :: jstime
  processingKline :: bool
  objects :: "exchange_kline list"
  arrays :: "nat list list"
  suspended :: "activation option"
  timers :: nat
  sockets :: nat

definition MAX_RECONNECT_ATTEMPTS :: nat where
  "MAX_RECONNECT_ATTEMPTS = 5"

definition RECONNECT_DELAY :: nat where
  "RECONNECT_DELAY = 5000"

definition MAX_KLINES :: nat where
  "MAX_KLINES = 50"

definition EXCHANGE :: string where
  "EXCHANGE = ''COINBASE''"

definition init :: state where
  "init = \<lparr> ws = None, reconnectAttempts = 0, currentKline = None, klineStartTime = Ms 0,
            klines = 0, lastTickTime = Ms 0, processingKline = False,
            objects = [], arrays = [[]],
            suspended = None, timers = 0, sockets = 0 \<rparr>"

text \<open>
  The array \<^verbatim>\<open>this.klines\<close> refers to: the addresses of its elements, and the candles
  found there.
\<close>

definition historyRefs :: "state \<Rightarrow> nat list" where
  "historyRefs s = arrays s ! klines s"

definition history :: "state \<Rightarrow> exchange_kline list" where
  "history s = map (\<lambda>r. objects s ! r) (historyRefs s)"

section \<open>Aggregation\<close>

text \<open>\<^verbatim>\<open>{ ...this.currentKline, exchange: this.EXCHANGE }\<close>: the fields of the new object.\<close>

definition completeKline :: "base_kline \<Rightarrow> exchange_kline" where
  "completeKline k =
     \<lparr> symbol = symbol k, interval = interval k, openTime = openTime k,
       closeTime = closeTime k, open_price = open_price k, high = high k, low = low k,
       close = close k, volume = volume k, trades = trades k, exchange = EXCHANGE \<rparr>"

text \<open>A new object in the store, and its address.\<close>

definition allocate :: "state \<Rightarrow> exchange_kline \<Rightarrow> state \<times> nat" where
  "allocate s c = (s\<lparr>objects := objects s @ [c]\<rparr>, length (objects s))"

text \<open>\<^verbatim>\<open>this.klines.unshift(c); if (this.klines.length > this.MAX_KLINES) this.klines.pop();\<close>\<close>

definition pushKline :: "state \<Rightarrow> nat \<Rightarrow> state \<times> action list" where
  "pushKline s r =
     (let ys = r # historyRefs s
      in if length ys > MAX_KLINES
         then (s\<lparr>arrays := (arrays s)[klines s := butlast ys]\<rparr>, [Unshift r, Pop])
         else (s\<lparr>arrays := (arrays s)[klines s := ys]\<rparr>, [Unshift r]))"

text \<open>The \<^verbatim>\<open>// Start new kline\<close> block; its last statement prints, and can throw.\<close>

definition newKline :: "jstime \<Rightarrow> jsnum \<Rightarrow> jsnum \<Rightarrow> base_kline" where
  "newKline start p sz =
     \<lparr> symbol = ''BTC-USD'', interval = ''1m'', openTime = start, closeTime = t_add start 60000,
       open_price = p, high = p, low = p, close = p, volume = sz, trades = 1 \<rparr>"

definition logStarted :: "jstime \<Rightarrow> action list \<times> thrown option" where
  "logStarted t =
     (case toISOString t of
        Inl e \<Rightarrow> ([], Some e)
      | Inr w \<Rightarrow> ([Console (LogStarted w)], None))"

definition startKline ::
  "state \<Rightarrow> jstime \<Rightarrow> jsnum \<Rightarrow> jsnum \<Rightarrow> state \<times> action list \<times> thrown option" where
  "startKline s currentMinute p sz =
     (let s' = s\<lparr>klineStartTime := currentMinute,
                 currentKline := Some (newKline currentMinute p sz)\<rparr>;
          (out, rej) = logStarted (klineStartTime s')
      in (s', out, rej))"

text \<open>
  The \<^verbatim>\<open>else if (this.currentKline)\<close> branch: the update in place. The field
  \<^verbatim>\<open>trades\<close> is always set, so \<^verbatim>\<open>(trades || 0) + 1\<close> is \<^verbatim>\<open>trades + 1\<close>.
\<close>

definition updateKline :: "base_kline \<Rightarrow> jsnum \<Rightarrow> jsnum \<Rightarrow> base_kline" where
  "updateKline k p sz =
     k\<lparr>high := js_max (high k) p, low := js_min (low k) p, close := p,
       volume := js_add (volume k) sz, trades := trades k + 1\<rparr>"

text \<open>
  \<^verbatim>\<open>processTickerUpdate\<close> from its entry to its first \<^verbatim>\<open>await\<close> or to its end. When
  a candle is open and the tick belongs to a later minute, the function stops at the
  \<^verbatim>\<open>await\<close> with the completed candle already in the array, \<^verbatim>\<open>saveKline\<close> called and
  \<^verbatim>\<open>processingKline\<close> set; \<open>resumeTickerUpdate\<close> is the rest. The third component is
  what the function throws, that is, what its promise rejects with: the \<^verbatim>\<open>try\<close> that
  sets \<^verbatim>\<open>processingKline\<close> has a \<^verbatim>\<open>finally\<close>, which clears it, and no \<^verbatim>\<open>catch\<close>.
\<close>

definition processTickerUpdate :: "state \<Rightarrow> ticker \<Rightarrow> state \<times> action list \<times> thrown option" where
  "processTickerUpdate s d =
     (if t_le (getTime (time d)) (lastTickTime s) then (s, [], None)
      else
        let s1 = s\<lparr>lastTickTime := getTime (time d)\<rparr>;
            currentMinute = minuteOf (getTime (time d))
        in if currentKline s1 = None \<or> t_gt currentMinute (klineStartTime s1) then
             (if processingKline s1 then (s1, [Console LogWaiting], None)
              else
                (case currentKline s1 of
                   None \<Rightarrow>
                     (let (s2, out, rej) =
                            startKline (s1\<lparr>processingKline := True\<rparr>) currentMinute
                              (price d) (last_size d)
                      in (s2\<lparr>processingKline := False\<rparr>, out, rej))
                 | Some k \<Rightarrow>
                     (case toISOString (klineStartTime s1) of
                        Inl e \<Rightarrow> (s1\<lparr>processingKline := False\<rparr>, [], Some e)
                      | Inr w \<Rightarrow>
                          let c = completeKline k;
                              (s2, r) = allocate (s1\<lparr>processingKline := True\<rparr>) c;
                              (s3, pushed) = pushKline s2 r
                          in (s3\<lparr>suspended := Some \<lparr> a_currentMinute = currentMinute,
                                                     a_price = price d, a_size = last_size d,
                                                     a_completeKline = r \<rparr>\<rparr>,
                              Console (LogCompleting w) # pushed @ [SaveKline r c], None))))
           else
             (case currentKline s1 of
                Some k \<Rightarrow>
                  (s1\<lparr>currentKline := Some (updateKline k (price d) (last_size d))\<rparr>, [], None)
              | None \<Rightarrow> (s1, [], None)))"

text \<open>
  The \<^verbatim>\<open>try\<close> block around \<^verbatim>\<open>await saveKline\<close>, from the settlement on: what it prints
  and what it throws. After a successful save it prints the open time of the candle, which
  throws when that is no date, and then calls \<^verbatim>\<open>logKline\<close>, which formats the open
  time and the close time before it prints.
\<close>

definition saveKline_try :: "state \<Rightarrow> save_outcome \<Rightarrow> nat \<Rightarrow> action list \<times> thrown option" where
  "saveKline_try s r a =
     (case r of
        Rejected e \<Rightarrow> ([], Some e)
      | Saved \<Rightarrow>
          (let c = objects s ! a
           in case toISOString (openTime c) of
                Inl e \<Rightarrow> ([], Some e)
              | Inr t \<Rightarrow>
                  (case toISOString (closeTime c) of
                     Inl e \<Rightarrow> ([Console (LogSaved c)], Some e)
                   | Inr t' \<Rightarrow>
                       ([Console (LogSaved c), Console (LogKline c (length (historyRefs s)))],
                        None))))"

text \<open>
  The \<^verbatim>\<open>catch (error)\<close> clause:
  \<^verbatim>\<open>if (error instanceof Error && error.name !== 'ConditionalCheckFailedException') console.error(...)\<close>
\<close>

definition saveKline_catch :: "thrown \<Rightarrow> action list" where
  "saveKline_catch e =
     (case e of
        JsError n \<Rightarrow>
          (if n \<noteq> ''ConditionalCheckFailedException'' then [Console (ErrSaveFailed e)] else [])
      | NonError \<Rightarrow> [])"

text \<open>The inner \<^verbatim>\<open>try\<close> with its \<^verbatim>\<open>catch\<close>: it prints, and throws nothing.\<close>

definition saveKline_guarded :: "state \<Rightarrow> save_outcome \<Rightarrow> nat \<Rightarrow> action list" where
  "saveKline_guarded s r a =
     (let (tried, err) = saveKline_try s r a
      in tried @ (case err of None \<Rightarrow> [] | Some e \<Rightarrow> saveKline_catch e))"

text \<open>
  The rest of \<^verbatim>\<open>processTickerUpdate\<close> once the promise of \<^verbatim>\<open>saveKline\<close> has settled:
  the inner \<^verbatim>\<open>try\<close> with its \<^verbatim>\<open>catch\<close>, the \<^verbatim>\<open>// Start new kline\<close> block and the
  \<^verbatim>\<open>finally\<close>.
\<close>

definition resumeTickerUpdate :: "state \<Rightarrow> save_outcome \<Rightarrow> state \<times> action list \<times> thrown option" where
  "resumeTickerUpdate s r =
     (case suspended s of
        None \<Rightarrow> (s, [], None)
      | Some a \<Rightarrow>
          let s0 = s\<lparr>suspended := None\<rparr>;
              printed = saveKline_guarded s0 r (a_completeKline a);
              (s1, out, rej) = startKline s0 (a_currentMinute a) (a_price a) (a_size a)
          in (s1\<lparr>processingKline := False\<rparr>, printed @ out, rej))"

text \<open>
  \<^verbatim>\<open>getKlines\<close>: \<^verbatim>\<open>[...this.klines]\<close> is a new array whose elements are the elements
  of the private array, the same objects.
\<close>

definition getKlines :: "state \<Rightarrow> state \<times> nat" where
  "getKlines s = (s\<lparr>arrays := arrays s @ [historyRefs s]\<rparr>, length (arrays s))"

text \<open>
  What code outside the class can do with what it was given. With an array from
  \<^verbatim>\<open>getKlines\<close>: any change of its length or of its elements. With a candle object,
  which it has from such an array or as the argument of \<^verbatim>\<open>saveKline\<close>: any assignment
  to its fields.
\<close>

definition callerWrite :: "state \<Rightarrow> nat \<Rightarrow> nat list \<Rightarrow> state" where
  "callerWrite s a rs = s\<lparr>arrays := (arrays s)[a := rs]\<rparr>"

definition callerSet :: "state \<Rightarrow> nat \<Rightarrow> exchange_kline \<Rightarrow> state" where
  "callerSet s r c = s\<lparr>objects := (objects s)[r := c]\<rparr>"

section \<open>Connection\<close>

definition handleReconnect :: "state \<Rightarrow> state \<times> action list" where
  "handleReconnect s =
     (if reconnectAttempts s < MAX_RECONNECT_ATTEMPTS then
        (s\<lparr>reconnectAttempts := reconnectAttempts s + 1, timers := timers s + 1\<rparr>,
         [Console (LogReconnecting (reconnectAttempts s + 1)), SetTimeout RECONNECT_DELAY])
      else (s, [Console ErrMaxReached]))"

text \<open>
  \<^verbatim>\<open>connect\<close>; the flag says whether \<^verbatim>\<open>new WebSocket(...)\<close> returns (it throws
  otherwise, and the \<^verbatim>\<open>catch\<close> clause runs).
\<close>

definition connect :: "state \<Rightarrow> bool \<Rightarrow> state \<times> action list" where
  "connect s ok =
     (if ok then
        (s\<lparr>ws := Some (sockets s), sockets := sockets s + 1\<rparr>,
         [Console LogConnecting, NewWebSocket (sockets s)])
      else
        (let (s', out) = handleReconnect s
         in (s', [Console LogConnecting, Console ErrEstablish] @ out)))"

text \<open>\<^verbatim>\<open>handleOpen\<close>; the flag is \<^verbatim>\<open>this.ws.readyState === WebSocket.OPEN\<close>.\<close>

definition handleOpen :: "state \<Rightarrow> bool \<Rightarrow> state \<times> action list" where
  "handleOpen s ready =
     (s\<lparr>reconnectAttempts := 0\<rparr>,
      Console LogConnected #
        (case ws s of
           Some i \<Rightarrow> (if ready then [WsSend i, Console LogSubscribed] else [])
         | None \<Rightarrow> []))"

text \<open>
  \<^verbatim>\<open>handleMessage\<close>. \<^verbatim>\<open>processTickerUpdate\<close> is an \<^verbatim>\<open>async\<close> function: what it
  throws rejects its promise and never reaches the \<^verbatim>\<open>catch\<close> clause here.
\<close>

definition unhandled :: "thrown option \<Rightarrow> action list" where
  "unhandled rej = (case rej of None \<Rightarrow> [] | Some e \<Rightarrow> [Unhandled e])"

definition handleMessage :: "state \<Rightarrow> message \<Rightarrow> state \<times> action list" where
  "handleMessage s m =
     (case m of
        Malformed \<Rightarrow> (s, [Console ErrProcessing])
      | TickerMsg d \<Rightarrow> (let (s', out, rej) = processTickerUpdate s d in (s', out @ unhandled rej))
      | OtherMsg \<Rightarrow> (s, []))"

definition handleError :: "state \<Rightarrow> state \<times> action list" where
  "handleError s = (s, [Console ErrWebSocket, Console ErrDetails])"

definition handleClose :: "state \<Rightarrow> state \<times> action list" where
  "handleClose s = (let (s', out) = handleReconnect s in (s', Console LogClosed # out))"

definition disconnect :: "state \<Rightarrow> state \<times> action list" where
  "disconnect s =
     (case ws s of
        Some i \<Rightarrow> (s\<lparr>ws := None\<rparr>, [WsCloseCall i])
      | None \<Rightarrow> (s, []))"

section \<open>The event loop\<close>

text \<open>
  What can happen to the singleton: its host calls a public method, code outside the class
  writes to an array it got from \<^verbatim>\<open>getKlines\<close> or to a candle object, a socket emits
  an event, a reconnect timer fires, the promise of \<^verbatim>\<open>saveKline\<close> settles. The events
  come one at a time, as the event loop delivers them: a ticker message can arrive between
  the call of \<^verbatim>\<open>saveKline\<close> and its settlement. A timer that was not set, a settlement
  nothing waits for, a write to an array that is the private one or does not exist and a
  write to an object that does not exist do nothing.
\<close>

datatype event =
    Connect bool
  | Disconnect
  | GetKlines
  | CallerWrite nat "nat list"
  | CallerSet nat exchange_kline
  | WsOpen bool
  | WsMessage message
  | WsError
  | WsClose
  | TimerFired bool
  | SaveSettled save_outcome

fun step :: "state \<Rightarrow> event \<Rightarrow> state \<times> action list" where
  "step s (Connect ok) = connect s ok"
| "step s Disconnect = disconnect s"
| "step s GetKlines = (let (s', a) = getKlines s in (s', [ReturnArray a]))"
| "step s (CallerWrite a rs) =
     (if a \<noteq> klines s \<and> a < length (arrays s) then (callerWrite s a rs, []) else (s, []))"
| "step s (CallerSet r c) =
     (if r < length (objects s) then (callerSet s r c, []) else (s, []))"
| "step s (WsOpen ready) = handleOpen s ready"
| "step s (WsMessage m) = handleMessage s m"
| "step s WsError = handleError s"
| "step s WsClose = handleClose s"
| "step s (TimerFired ok) =
     (if timers s = 0 then (s, []) else connect (s\<lparr>timers := timers s - 1\<rparr>) ok)"
| "step s (SaveSettled r) =
     (let (s', out, rej) = resumeTickerUpdate s r in (s', out @ unhandled rej))"

fun run :: "state \<Rightarrow> event list \<Rightarrow> state \<times> action list" where
  "run s [] = (s, [])"
| "run s (e # es) =
     (let (s1, out1) = step s e; (s2, out2) = run s1 es in (s2, out1 @ out2))"

section \<open>Properties of states and traces\<close>

text \<open>
  The candles handed to \<^verbatim>\<open>saveKline\<close>, oldest first: their fields at the time of the
  call, and their addresses.
\<close>

fun emitted :: "action list \<Rightarrow> exchange_kline list" where
  "emitted [] = []"
| "emitted (SaveKline r c # out) = c # emitted out"
| "emitted (x # out) = emitted out"

fun emittedRefs :: "action list \<Rightarrow> nat list" where
  "emittedRefs [] = []"
| "emittedRefs (SaveKline r c # out) = r # emittedRefs out"
| "emittedRefs (x # out) = emittedRefs out"

text \<open>The sockets opened, oldest first.\<close>

fun opened :: "action list \<Rightarrow> nat list" where
  "opened [] = []"
| "opened (NewWebSocket i # out) = i # opened out"
| "opened (x # out) = opened out"


definition candle_ordered :: "'a base_kline_scheme \<Rightarrow> bool" where
  "candle_ordered k \<longleftrightarrow>
     js_le (low k) (open_price k) \<and> js_le (low k) (close k) \<and> js_le (low k) (high k) \<and>
     js_le (open_price k) (high k) \<and> js_le (close k) (high k)"

text \<open>
  A value of \<^verbatim>\<open>Math.floor(time / 60000) * 60000\<close> for a time of \<^verbatim>\<open>getTime()\<close>:
  \<^verbatim>\<open>NaN\<close>, or a multiple of 60000 that is the time of a date.
\<close>

fun aligned :: "jstime \<Rightarrow> bool" where
  "aligned (Ms w) = (60000 dvd w \<and> - MAX_TIME \<le> w \<and> w \<le> MAX_TIME)"
| "aligned NaT = True"

text \<open>
  How the fields hang together in every state the class reaches. The private array
  exists, has at most \<open>MAX_KLINES\<close> elements, and they are objects of the store. The flag
  is set exactly while an activation is suspended. Before the first candle nothing is
  suspended and the array is empty. The current candle is the one of \<open>klineStartTime\<close>;
  a suspended activation completed it, the completed copy heads the array, and the minute
  that waits to be opened is a later one.
\<close>

definition state_ok :: "state \<Rightarrow> bool" where
  "state_ok s \<longleftrightarrow>
     klines s < length (arrays s) \<and> length (historyRefs s) \<le> MAX_KLINES \<and>
     (\<forall>r \<in> set (historyRefs s). r < length (objects s)) \<and>
     (processingKline s \<longleftrightarrow> suspended s \<noteq> None) \<and>
     (case currentKline s of
        None \<Rightarrow> suspended s = None \<and> historyRefs s = []
      | Some k \<Rightarrow>
          aligned (klineStartTime s) \<and>
          openTime k = klineStartTime s \<and> closeTime k = t_add (klineStartTime s) 60000 \<and>
          1 \<le> trades k \<and>
          (case suspended s of
             None \<Rightarrow> True
           | Some a \<Rightarrow>
               aligned (a_currentMinute a) \<and> t_gt (a_currentMinute a) (klineStartTime s) \<and>
               historyRefs s \<noteq> [] \<and> hd (historyRefs s) = a_completeKline a))"


text \<open>
  What holds in addition as long as the time of every ticker message parsed: the
  watermark is the time of a tick, the window start is a minute not after it, and so is
  the minute that waits to be opened.
\<close>

definition time_ok :: "state \<Rightarrow> bool" where
  "time_ok s \<longleftrightarrow>
     lastTickTime s \<noteq> NaT \<and>
     (case currentKline s of
        None \<Rightarrow> True
      | Some k \<Rightarrow>
          t_le (klineStartTime s) (lastTickTime s) \<and>
          (case suspended s of
             None \<Rightarrow> True
           | Some a \<Rightarrow> t_le (a_currentMinute a) (lastTickTime s)))"


text \<open>An event that is not a write to a candle object from outside the class.\<close>

fun keeps_candles :: "event \<Rightarrow> bool" where
  "keeps_candles (CallerSet r c) = False"
| "keeps_candles e = True"

definition ordered_ok :: "state \<Rightarrow> bool" where
  "ordered_ok s \<longleftrightarrow>
     (case currentKline s of None \<Rightarrow> True | Some k \<Rightarrow> candle_ordered k) \<and>
     (case suspended s of None \<Rightarrow> True | Some a \<Rightarrow> a_price a \<noteq> NaN)"

text \<open>Folding the ticks of one minute into its candle, one after the other.\<close>

fun foldTicks :: "base_kline \<Rightarrow> ticker list \<Rightarrow> base_kline" where
  "foldTicks k [] = k"
| "foldTicks k (d # ds) = foldTicks (updateKline k (price d) (last_size d)) ds"

text \<open>The ticks come with increasing times, all after \<open>t\<close>, all in the minute \<open>w\<close>.\<close>

fun ticks_in :: "int \<Rightarrow> int \<Rightarrow> ticker list \<Rightarrow> bool" where
  "ticks_in w t [] = True"
| "ticks_in w t (d # ds) =
     (case getTime (time d) of
        NaT \<Rightarrow> False
      | Ms u \<Rightarrow> t < u \<and> bucket u = w \<and> ticks_in w u ds)"

text \<open>A ticker message with a time that parses and a finite price and size.\<close>

definition tickAt :: "int \<Rightarrow> real \<Rightarrow> real \<Rightarrow> event" where
  "tickAt t p z = WsMessage (TickerMsg \<lparr>time = Some t, price = Fin p, last_size = Fin z\<rparr>)"

text \<open>\<open>n\<close> times: the socket closes, the reconnect delay elapses and \<^verbatim>\<open>connect\<close> runs.\<close>

fun closes :: "nat \<Rightarrow> event list" where
  "closes 0 = []"
| "closes (Suc n) = WsClose # TimerFired True # closes n"

text \<open>Ticker messages arriving one after the other.\<close>

definition tickers :: "ticker list \<Rightarrow> event list" where
  "tickers ds = map (\<lambda>d. WsMessage (TickerMsg d)) ds"

text \<open>
  Whether a candle with open time \<open>t\<close> can still be handed to \<^verbatim>\<open>saveKline\<close> from this
  state on: not one before the current candle, and while a save is awaited not one before
  the minute that is waiting to be opened.
\<close>

definition may_emit :: "state \<Rightarrow> jstime \<Rightarrow> bool" where
  "may_emit s t =
     (case currentKline s of
        None \<Rightarrow> True
      | Some k \<Rightarrow>
          (case suspended s of
             None \<Rightarrow> t_le (klineStartTime s) t
           | Some a \<Rightarrow> t_le (a_currentMinute a) t))"


section \<open>Sums of small integers\<close>

text \<open>An integer of magnitude below \<open>2 ^ 53\<close> is a binary64 number: rounding leaves it.\<close>

lemma round_half_even_int [simp]: "round_half_even (of_int m) = m"
  by (simp add: round_half_even_def)

lemma floor_log2_small:
  assumes "1 \<le> x" and "x < 2 ^ 53"
  shows "0 \<le> \<lfloor>log 2 x\<rfloor> \<and> \<lfloor>log 2 x\<rfloor> \<le> 52"
proof -
  have "0 \<le> log 2 x" using assms(1) by simp
  moreover have "log 2 x < 53"
  proof -
    have "x < 2 powr 53" using assms(2) by (simp add: powr_numeral)
    then show ?thesis using assms(1) by (simp add: log_less_iff)
  qed
  ultimately show ?thesis by (simp add: floor_le_iff le_floor_iff)
qed

lemma round_double_int:
  assumes "\<bar>n\<bar> < 2 ^ 53"
  shows "round_double (of_int n) = Fin (of_int n)"
proof (cases "n = 0")
  case True
  then show ?thesis by (simp add: round_double_def)
next
  case False
  let ?x = "of_int n :: real"
  have x1: "1 \<le> \<bar>?x\<bar>" using False by (simp flip: of_int_abs)
  have x2: "\<bar>?x\<bar> < 2 ^ 53" using assms by (simp flip: of_int_abs)
  define e where "e = \<lfloor>log 2 \<bar>?x\<bar>\<rfloor>"
  from floor_log2_small [OF x1 x2] have e: "0 \<le> e" "e \<le> 52" by (simp_all add: e_def)
  define k where "k = nat (52 - e)"
  have ue: "ulp_exponent ?x = - int k" using e by (simp add: ulp_exponent_def e_def k_def)
  have q: "(2::real) powr of_int (ulp_exponent ?x) = 1 / 2 ^ k"
    by (simp add: ue powr_minus powr_realpow inverse_eq_divide)
  have div: "?x / (1 / 2 ^ k) = of_int (n * 2 ^ k)" by simp
  have y: "of_int (round_half_even (?x / (1 / 2 ^ k))) * (1 / 2 ^ k) = ?x"
    by (simp only: div round_half_even_int) simp
  have small: "\<not> 2 ^ 1024 \<le> \<bar>?x\<bar>"
  proof -
    have "(2::real) ^ 53 \<le> 2 ^ 1024" by (rule power_increasing) simp_all
    with x2 show ?thesis by linarith
  qed
  from False y small show ?thesis
    by (simp add: round_double_def Let_def q del: of_int_mult)
qed

lemma round_double_numeral [simp]:
  "(numeral w :: int) < 2 ^ 53 \<Longrightarrow> round_double (numeral w) = Fin (numeral w)"
  using round_double_int [of "numeral w"] by simp

lemma round_double_neg_numeral [simp]:
  "(numeral w :: int) < 2 ^ 53 \<Longrightarrow> round_double (- numeral w) = Fin (- numeral w)"
  using round_double_int [of "- numeral w"] by simp

lemma round_double_0 [simp]: "round_double 0 = Fin 0"
  by (simp add: round_double_def)

lemma round_double_1 [simp]: "round_double 1 = Fin 1"
  using round_double_int [of 1] by simp

section \<open>Times\<close>


lemma t_gt_Ms: "t_gt a b \<Longrightarrow> \<exists>x y. a = Ms x \<and> b = Ms y \<and> y < x"
  by (cases a; cases b) simp_all

lemma t_le_NaT [simp]: "\<not> t_le a NaT" "\<not> t_le NaT b"
  by (cases a) simp_all

lemma t_gt_NaT [simp]: "\<not> t_gt a NaT" "\<not> t_gt NaT b"
  by (cases a) simp_all

lemma bucket_le: "bucket t \<le> t"
  unfolding bucket_def by (simp add: div_mult_self_is_m)

lemma bucket_dvd: "60000 dvd bucket t"
  by (simp add: bucket_def)

lemma bucket_ge: "60000 dvd c \<Longrightarrow> c \<le> t \<Longrightarrow> c \<le> bucket t"
  unfolding bucket_def by (auto simp add: zdiv_mono1 elim!: dvdE)

lemma aligned_minuteOf: "aligned (minuteOf (getTime x))"
proof (cases "getTime x")
  case NaT
  then show ?thesis by simp
next
  case (Ms t)
  then have r: "- MAX_TIME \<le> t" "t \<le> MAX_TIME"
    by (cases x; simp split: if_splits)+
  have "60000 dvd - MAX_TIME" by (simp add: MAX_TIME_def)
  then have "- MAX_TIME \<le> bucket t" using r(1) by (rule bucket_ge)
  moreover have "bucket t \<le> MAX_TIME" using bucket_le [of t] r(2) by simp
  ultimately show ?thesis using Ms by (simp add: bucket_dvd)
qed

lemma aligned_toISOString: "aligned (Ms w) \<Longrightarrow> toISOString (Ms w) = Inr w"
  by simp

lemma logStarted_aligned: "aligned (Ms w) \<Longrightarrow> logStarted (Ms w) = ([Console (LogStarted w)], None)"
  by (simp add: logStarted_def)

section \<open>The array and the store\<close>

lemma historyRefs_simps [simp]:
  "historyRefs (s\<lparr>lastTickTime := t\<rparr>) = historyRefs s"
  "historyRefs (s\<lparr>processingKline := b\<rparr>) = historyRefs s"
  "historyRefs (s\<lparr>suspended := a\<rparr>) = historyRefs s"
  "historyRefs (s\<lparr>currentKline := k\<rparr>) = historyRefs s"
  "historyRefs (s\<lparr>klineStartTime := w\<rparr>) = historyRefs s"
  "historyRefs (s\<lparr>ws := i\<rparr>) = historyRefs s"
  "historyRefs (s\<lparr>reconnectAttempts := n\<rparr>) = historyRefs s"
  "historyRefs (s\<lparr>timers := n\<rparr>) = historyRefs s"
  "historyRefs (s\<lparr>sockets := n\<rparr>) = historyRefs s"
  "historyRefs (s\<lparr>objects := os\<rparr>) = historyRefs s"
  by (simp_all add: historyRefs_def)

lemma historyRefs_arrays [simp]: "historyRefs (s\<lparr>arrays := as\<rparr>) = as ! klines s"
  by (simp add: historyRefs_def)

lemma history_simps [simp]:
  "history (s\<lparr>lastTickTime := t\<rparr>) = history s"
  "history (s\<lparr>processingKline := b\<rparr>) = history s"
  "history (s\<lparr>suspended := a\<rparr>) = history s"
  "history (s\<lparr>currentKline := k\<rparr>) = history s"
  "history (s\<lparr>klineStartTime := w\<rparr>) = history s"
  "history (s\<lparr>ws := i\<rparr>) = history s"
  "history (s\<lparr>reconnectAttempts := n\<rparr>) = history s"
  "history (s\<lparr>timers := n\<rparr>) = history s"
  "history (s\<lparr>sockets := n\<rparr>) = history s"
  by (simp_all add: history_def)

lemma butlast_take_bound:
  "length xs \<le> n \<Longrightarrow>
   (if length (c # xs) > n then butlast (c # xs) else c # xs) = take n (c # xs)"
proof (cases "length (c # xs) > n")
  case True
  assume "length xs \<le> n"
  with True have "n = length (c # xs) - 1" by simp
  then show ?thesis using True by (simp only: butlast_conv_take if_True)
next
  case False
  then show ?thesis by simp
qed

lemma pushKline_eq:
  "length (historyRefs s) \<le> MAX_KLINES \<Longrightarrow>
   pushKline s r =
     (s\<lparr>arrays := (arrays s)[klines s := take MAX_KLINES (r # historyRefs s)]\<rparr>,
      Unshift r # (if length (historyRefs s) < MAX_KLINES then [] else [Pop]))"
  using butlast_take_bound [of "historyRefs s" MAX_KLINES r]
  by (auto simp add: pushKline_def Let_def)

lemma deref_fresh:
  "\<forall>r \<in> set rs. r < length os \<Longrightarrow> map (\<lambda>r. (os @ [c]) ! r) rs = map (\<lambda>r. os ! r) rs"
  by (simp add: nth_append)

lemma complete_fields [simp]:
  "openTime (completeKline k) = openTime k"
  "closeTime (completeKline k) = closeTime k"
  "open_price (completeKline k) = open_price k"
  "high (completeKline k) = high k"
  "low (completeKline k) = low k"
  "close (completeKline k) = close k"
  "volume (completeKline k) = volume k"
  "trades (completeKline k) = trades k"
  "symbol (completeKline k) = symbol k"
  "interval (completeKline k) = interval k"
  "exchange (completeKline k) = EXCHANGE"
  by (simp_all add: completeKline_def)

lemma newKline_fields [simp]:
  "openTime (newKline w p z) = w"
  "closeTime (newKline w p z) = t_add w 60000"
  "open_price (newKline w p z) = p"
  "high (newKline w p z) = p"
  "low (newKline w p z) = p"
  "close (newKline w p z) = p"
  "volume (newKline w p z) = z"
  "trades (newKline w p z) = 1"
  by (simp_all add: newKline_def)

lemma updateKline_fields [simp]:
  "openTime (updateKline k p z) = openTime k"
  "closeTime (updateKline k p z) = closeTime k"
  "open_price (updateKline k p z) = open_price k"
  "high (updateKline k p z) = js_max (high k) p"
  "low (updateKline k p z) = js_min (low k) p"
  "close (updateKline k p z) = p"
  "volume (updateKline k p z) = js_add (volume k) z"
  "trades (updateKline k p z) = trades k + 1"
  by (simp_all add: updateKline_def)

lemma updateKline_neq: "updateKline k p z \<noteq> k"
proof
  assume "updateKline k p z = k"
  then have "trades (updateKline k p z) = trades k" by simp
  then show False by simp
qed

section \<open>The cases of \<open>processTickerUpdate\<close>\<close>

lemma ptu_drop:
  "t_le (getTime (time d)) (lastTickTime s) \<Longrightarrow> processTickerUpdate s d = (s, [], None)"
  by (simp add: processTickerUpdate_def)

lemma ptu_first:
  "\<not> t_le (getTime (time d)) (lastTickTime s) \<Longrightarrow> currentKline s = None \<Longrightarrow>
   \<not> processingKline s \<Longrightarrow>
   processTickerUpdate s d =
     (s\<lparr>lastTickTime := getTime (time d), klineStartTime := minuteOf (getTime (time d)),
        currentKline := Some (newKline (minuteOf (getTime (time d))) (price d) (last_size d)),
        processingKline := False\<rparr>,
      logStarted (minuteOf (getTime (time d))))"
  by (simp add: processTickerUpdate_def Let_def startKline_def split_beta)

lemma ptu_guard:
  "\<not> t_le (getTime (time d)) (lastTickTime s) \<Longrightarrow>
   currentKline s = None \<or> t_gt (minuteOf (getTime (time d))) (klineStartTime s) \<Longrightarrow>
   processingKline s \<Longrightarrow>
   processTickerUpdate s d = (s\<lparr>lastTickTime := getTime (time d)\<rparr>, [Console LogWaiting], None)"
  by (auto simp add: processTickerUpdate_def Let_def)

lemma ptu_roll:
  assumes "\<not> t_le (getTime (time d)) (lastTickTime s)" and "currentKline s = Some k"
    and "t_gt (minuteOf (getTime (time d))) (klineStartTime s)" and "\<not> processingKline s"
    and "toISOString (klineStartTime s) = Inr w" and "length (historyRefs s) \<le> MAX_KLINES"
  shows "processTickerUpdate s d =
     (s\<lparr>lastTickTime := getTime (time d), processingKline := True,
        objects := objects s @ [completeKline k],
        arrays := (arrays s)[klines s := take MAX_KLINES (length (objects s) # historyRefs s)],
        suspended := Some \<lparr> a_currentMinute = minuteOf (getTime (time d)), a_price = price d,
                             a_size = last_size d, a_completeKline = length (objects s) \<rparr>\<rparr>,
      Console (LogCompleting w) # Unshift (length (objects s)) #
        (if length (historyRefs s) < MAX_KLINES then [] else [Pop]) @
        [SaveKline (length (objects s)) (completeKline k)],
      None)"
proof -
  let ?s2 = "s\<lparr>lastTickTime := getTime (time d), processingKline := True,
               objects := objects s @ [completeKline k]\<rparr>"
  have len: "length (historyRefs ?s2) \<le> MAX_KLINES" using assms(6) by simp
  show ?thesis
    using assms(1-5)
    by (simp add: processTickerUpdate_def Let_def allocate_def pushKline_eq [OF len])
qed

lemma ptu_fold:
  "\<not> t_le (getTime (time d)) (lastTickTime s) \<Longrightarrow> currentKline s = Some k \<Longrightarrow>
   \<not> t_gt (minuteOf (getTime (time d))) (klineStartTime s) \<Longrightarrow>
   processTickerUpdate s d =
     (s\<lparr>lastTickTime := getTime (time d),
        currentKline := Some (updateKline k (price d) (last_size d))\<rparr>, [], None)"
  by (simp add: processTickerUpdate_def Let_def)

lemma resume_none:
  "suspended s = None \<Longrightarrow> resumeTickerUpdate s r = (s, [], None)"
  by (simp add: resumeTickerUpdate_def)

lemma saveKline_try_upd [simp]:
  "saveKline_try (s\<lparr>suspended := x\<rparr>) r a = saveKline_try s r a"
  by (cases r) (simp_all add: saveKline_try_def Let_def split: sum.splits)

lemma saveKline_guarded_upd [simp]:
  "saveKline_guarded (s\<lparr>suspended := x\<rparr>) r a = saveKline_guarded s r a"
  by (simp add: saveKline_guarded_def)

lemma resume_some:
  "suspended s = Some a \<Longrightarrow>
   resumeTickerUpdate s r =
     (s\<lparr>suspended := None, klineStartTime := a_currentMinute a,
        currentKline := Some (newKline (a_currentMinute a) (a_price a) (a_size a)),
        processingKline := False\<rparr>,
      saveKline_guarded s r (a_completeKline a) @ fst (logStarted (a_currentMinute a)),
      snd (logStarted (a_currentMinute a)))"
  by (simp add: resumeTickerUpdate_def Let_def startKline_def split_beta)

section \<open>Reachable states are consistent\<close>

lemma ok_ptu:
  assumes "state_ok s"
  shows "state_ok (fst (processTickerUpdate s d))"
proof (cases "t_le (getTime (time d)) (lastTickTime s)")
  case True
  with assms show ?thesis by (simp add: ptu_drop)
next
  case adm: False
  show ?thesis
  proof (cases "currentKline s")
    case None
    with assms have np: "\<not> processingKline s"
      by (simp add: state_ok_def)
    show ?thesis
      using assms None aligned_minuteOf [of "time d"]
      by (simp add: ptu_first [OF adm None np] state_ok_def)
  next
    case (Some k)
    show ?thesis
    proof (cases "t_gt (minuteOf (getTime (time d))) (klineStartTime s)")
      case later: True
      show ?thesis
      proof (cases "processingKline s")
        case True
        have "processTickerUpdate s d =
                (s\<lparr>lastTickTime := getTime (time d)\<rparr>, [Console LogWaiting], None)"
          using adm later True by (simp add: ptu_guard)
        then show ?thesis
          using assms by (simp add: state_ok_def cong: option.case_cong)
      next
        case False
        from later obtain c w where cw: "minuteOf (getTime (time d)) = Ms c" "klineStartTime s = Ms w"
          using t_gt_Ms by blast
        from assms Some cw have iso: "toISOString (klineStartTime s) = Inr w"
          by (simp add: state_ok_def)
        have len: "length (historyRefs s) \<le> MAX_KLINES"
          using assms by (simp add: state_ok_def)
        have kl: "klines s < length (arrays s)" using assms by (simp add: state_ok_def)
        have pos: "0 < MAX_KLINES" by (simp add: MAX_KLINES_def)
        let ?new = "take MAX_KLINES (length (objects s) # historyRefs s)"
        have sub: "set ?new \<subseteq> insert (length (objects s)) (set (historyRefs s))"
          using set_take_subset [of MAX_KLINES "length (objects s) # historyRefs s"] by simp
        have old: "\<forall>r \<in> set (historyRefs s). r < length (objects s)"
          using assms by (simp add: state_ok_def)
        have bound: "\<forall>r \<in> set ?new. r < Suc (length (objects s))"
          using sub old by fastforce
        have hdk: "hd ?new = length (objects s)" "?new \<noteq> []"
          using pos by (cases MAX_KLINES; simp)+
        show ?thesis
          using assms Some later hdk bound kl aligned_minuteOf [of "time d"]
          by (simp add: ptu_roll [OF adm Some later False iso len] state_ok_def)
      qed
    next
      case False
      have nosusp: "suspended s = None \<or> True" by simp
      show ?thesis
        using assms Some
        by (simp add: ptu_fold [OF adm Some False] state_ok_def cong: option.case_cong)
    qed
  qed
qed

lemma ok_resume:
  assumes "state_ok s"
  shows "state_ok (fst (resumeTickerUpdate s r))"
proof (cases "suspended s")
  case None
  with assms show ?thesis by (simp add: resume_none)
next
  case (Some a)
  with assms show ?thesis
    by (auto simp add: resume_some state_ok_def split: option.splits)
qed

lemma ok_getKlines: "state_ok s \<Longrightarrow> state_ok (fst (getKlines s))"
  by (auto simp add: getKlines_def state_ok_def nth_append historyRefs_def split: option.splits)

lemma ok_callerWrite:
  "state_ok s \<Longrightarrow> a \<noteq> klines s \<Longrightarrow> state_ok (callerWrite s a rs)"
  by (auto simp add: callerWrite_def state_ok_def historyRefs_def split: option.splits)

lemma ok_callerSet: "state_ok s \<Longrightarrow> state_ok (callerSet s r c)"
  by (auto simp add: callerSet_def state_ok_def split: option.splits)

lemma ok_conn_upd [simp]:
  "state_ok (s\<lparr>reconnectAttempts := n\<rparr>) = state_ok s"
  "state_ok (s\<lparr>timers := m\<rparr>) = state_ok s"
  "state_ok (s\<lparr>ws := w\<rparr>) = state_ok s"
  "state_ok (s\<lparr>sockets := i\<rparr>) = state_ok s"
  by (simp_all add: state_ok_def cong: option.case_cong)

lemma ok_handleReconnect: "state_ok s \<Longrightarrow> state_ok (fst (handleReconnect s))"
  by (simp add: handleReconnect_def)

lemma ok_connect: "state_ok s \<Longrightarrow> state_ok (fst (connect s ok))"
  using ok_handleReconnect [of s]
  by (simp add: connect_def split_beta)

lemma ok_step: "state_ok s \<Longrightarrow> state_ok (fst (step s e))"
proof (cases e)
  case (Connect ok)
  assume "state_ok s"
  with Connect show ?thesis by (simp add: ok_connect)
next
  case Disconnect
  assume "state_ok s"
  with Disconnect show ?thesis by (simp add: disconnect_def split: option.splits)
next
  case GetKlines
  assume "state_ok s"
  with GetKlines ok_getKlines [of s] show ?thesis by (simp add: split_beta)
next
  case (CallerWrite a rs)
  assume "state_ok s"
  with CallerWrite show ?thesis by (simp add: ok_callerWrite)
next
  case (CallerSet r c)
  assume "state_ok s"
  with CallerSet show ?thesis by (simp add: ok_callerSet)
next
  case (WsOpen ready)
  assume "state_ok s"
  with WsOpen show ?thesis by (simp add: handleOpen_def)
next
  case (WsMessage m)
  assume "state_ok s"
  with WsMessage ok_ptu [of s] show ?thesis
    by (simp add: handleMessage_def split_beta split: message.splits)
next
  case WsError
  assume "state_ok s"
  with WsError show ?thesis by (simp add: handleError_def)
next
  case WsClose
  assume "state_ok s"
  with WsClose ok_handleReconnect [of s] show ?thesis
    by (simp add: handleClose_def split_beta)
next
  case (TimerFired ok)
  assume "state_ok s"
  with TimerFired ok_connect [of "s\<lparr>timers := timers s - 1\<rparr>" ok] show ?thesis by simp
next
  case (SaveSettled r)
  assume "state_ok s"
  with SaveSettled ok_resume [of s r] show ?thesis by (simp add: split_beta)
qed

lemma ok_run: "state_ok s \<Longrightarrow> state_ok (fst (run s es))"
proof (induction es arbitrary: s)
  case Nil
  then show ?case by simp
next
  case (Cons e es)
  from Cons.prems have "state_ok (fst (step s e))" by (rule ok_step)
  then have "state_ok (fst (run (fst (step s e)) es))" by (rule Cons.IH)
  then show ?case by (simp add: split_beta)
qed

lemma ok_init: "state_ok init"
  by (simp add: state_ok_def historyRefs_def init_def)

text \<open>What a ticker message does in a consistent state: one of five things.\<close>

lemma ptu_cases [consumes 1, case_names drop first guard roll fold]:
  assumes ok: "state_ok s"
  obtains
    (drop) "t_le (getTime (time d)) (lastTickTime s)"
      and "processTickerUpdate s d = (s, [], None)"
  | (first) "\<not> t_le (getTime (time d)) (lastTickTime s)" and "currentKline s = None"
      and "\<not> processingKline s" and "suspended s = None"
      and "processTickerUpdate s d =
             (s\<lparr>lastTickTime := getTime (time d), klineStartTime := minuteOf (getTime (time d)),
                currentKline :=
                  Some (newKline (minuteOf (getTime (time d))) (price d) (last_size d)),
                processingKline := False\<rparr>,
              logStarted (minuteOf (getTime (time d))))"
  | (guard) k a where "\<not> t_le (getTime (time d)) (lastTickTime s)"
      and "currentKline s = Some k" and "processingKline s" and "suspended s = Some a"
      and "t_gt (minuteOf (getTime (time d))) (klineStartTime s)"
      and "processTickerUpdate s d =
             (s\<lparr>lastTickTime := getTime (time d)\<rparr>, [Console LogWaiting], None)"
  | (roll) k w c where "\<not> t_le (getTime (time d)) (lastTickTime s)"
      and "currentKline s = Some k" and "\<not> processingKline s" and "suspended s = None"
      and "klineStartTime s = Ms w" and "minuteOf (getTime (time d)) = Ms c" and "w < c"
      and "processTickerUpdate s d =
             (s\<lparr>lastTickTime := getTime (time d), processingKline := True,
                objects := objects s @ [completeKline k],
                arrays := (arrays s)
                  [klines s := take MAX_KLINES (length (objects s) # historyRefs s)],
                suspended := Some \<lparr> a_currentMinute = Ms c, a_price = price d,
                                     a_size = last_size d,
                                     a_completeKline = length (objects s) \<rparr>\<rparr>,
              Console (LogCompleting w) # Unshift (length (objects s)) #
                (if length (historyRefs s) < MAX_KLINES then [] else [Pop]) @
                [SaveKline (length (objects s)) (completeKline k)],
              None)"
  | (fold) k where "\<not> t_le (getTime (time d)) (lastTickTime s)"
      and "currentKline s = Some k"
      and "\<not> t_gt (minuteOf (getTime (time d))) (klineStartTime s)"
      and "processTickerUpdate s d =
             (s\<lparr>lastTickTime := getTime (time d),
                currentKline := Some (updateKline k (price d) (last_size d))\<rparr>, [], None)"
proof (cases "t_le (getTime (time d)) (lastTickTime s)")
  case True
  then show ?thesis using drop by (simp add: ptu_drop)
next
  case adm: False
  show ?thesis
  proof (cases "currentKline s")
    case None
    with ok have np: "\<not> processingKline s" and ns: "suspended s = None"
      by (simp_all add: state_ok_def)
    from first [OF adm None np ns ptu_first [OF adm None np]] show ?thesis .
  next
    case (Some k)
    show ?thesis
    proof (cases "t_gt (minuteOf (getTime (time d))) (klineStartTime s)")
      case later: True
      from later obtain c w where cw: "minuteOf (getTime (time d)) = Ms c" "klineStartTime s = Ms w"
        "w < c"
        using t_gt_Ms by blast
      show ?thesis
      proof (cases "processingKline s")
        case True
        with ok obtain a where a: "suspended s = Some a"
          by (auto simp add: state_ok_def)
        have "processTickerUpdate s d =
                (s\<lparr>lastTickTime := getTime (time d)\<rparr>, [Console LogWaiting], None)"
          using adm later True by (simp add: ptu_guard)
        from guard [OF adm Some True a later this] show ?thesis .
      next
        case False
        with ok have ns: "suspended s = None" by (simp add: state_ok_def)
        from ok Some cw have iso: "toISOString (klineStartTime s) = Inr w"
          by (simp add: state_ok_def)
        have len: "length (historyRefs s) \<le> MAX_KLINES"
          using ok by (simp add: state_ok_def)
        from roll [OF adm Some False ns cw(2) cw(1) cw(3)]
          ptu_roll [OF adm Some later False iso len] cw(1)
        show ?thesis by simp
      qed
    next
      case False
      from fold [OF adm Some False ptu_fold [OF adm Some False]] show ?thesis .
    qed
  qed
qed

section \<open>While the times of the ticks parse\<close>

lemma admitted_Ms:
  "\<not> t_le a b \<Longrightarrow> a \<noteq> NaT \<Longrightarrow> b \<noteq> NaT \<Longrightarrow> \<exists>x y. a = Ms x \<and> b = Ms y \<and> y < x"
  by (cases a; cases b) simp_all



lemma time_conn_upd [simp]:
  "time_ok (s\<lparr>reconnectAttempts := n\<rparr>) = time_ok s"
  "time_ok (s\<lparr>timers := m\<rparr>) = time_ok s"
  "time_ok (s\<lparr>ws := w\<rparr>) = time_ok s"
  "time_ok (s\<lparr>sockets := i\<rparr>) = time_ok s"
  "time_ok (s\<lparr>arrays := as\<rparr>) = time_ok s"
  "time_ok (s\<lparr>objects := os\<rparr>) = time_ok s"
  by (simp_all add: time_ok_def cong: option.case_cong)






text \<open>
  While a save is awaited, a tick whose time parses and passes the filter belongs to a
  minute after the current candle's.
\<close>

lemma in_flight_later:
  assumes ok: "state_ok s" and tm: "time_ok s" and fl: "processingKline s"
    and adm: "\<not> t_le (getTime (time d)) (lastTickTime s)" and valid: "getTime (time d) \<noteq> NaT"
  shows "t_gt (minuteOf (getTime (time d))) (klineStartTime s)"
proof -
  from ok fl obtain a where a: "suspended s = Some a"
    by (auto simp add: state_ok_def)
  with ok obtain k where k: "currentKline s = Some k"
    by (cases "currentKline s") (simp_all add: state_ok_def)
  from tm have l: "lastTickTime s \<noteq> NaT" by (simp add: time_ok_def)
  from admitted_Ms [OF adm valid l] obtain t l where
    tl: "getTime (time d) = Ms t" "lastTickTime s = Ms l" "l < t" by blast
  from ok a k have al: "aligned (a_currentMinute a)"
    and gt: "t_gt (a_currentMinute a) (klineStartTime s)"
    by (simp_all add: state_ok_def)
  from gt obtain c w where cw: "a_currentMinute a = Ms c" "klineStartTime s = Ms w" "w < c"
    using t_gt_Ms by blast
  from tm a k tl cw have "c \<le> l" by (simp add: time_ok_def)
  moreover from al cw have "60000 dvd c" by simp
  ultimately have "c \<le> bucket t" using tl(3) bucket_ge [of c t] by simp
  with cw tl show ?thesis by simp
qed

section \<open>What is handed to \<^verbatim>\<open>saveKline\<close>\<close>

lemma emitted_append: "emitted (xs @ ys) = emitted xs @ emitted ys"
  by (induction xs rule: emitted.induct) simp_all

lemma emittedRefs_append: "emittedRefs (xs @ ys) = emittedRefs xs @ emittedRefs ys"
  by (induction xs rule: emittedRefs.induct) simp_all

lemma opened_append: "opened (xs @ ys) = opened xs @ opened ys"
  by (induction xs rule: opened.induct) simp_all

lemma quiet_unhandled [simp]:
  "emitted (unhandled rej) = []" "emittedRefs (unhandled rej) = []"
  by (cases rej; simp add: unhandled_def)+

lemma quiet_logStarted [simp]:
  "emitted (fst (logStarted t)) = []" "emittedRefs (fst (logStarted t)) = []"
  by (simp_all add: logStarted_def split: sum.splits)

lemma quiet_catch [simp]:
  "emitted (saveKline_catch e) = []" "emittedRefs (saveKline_catch e) = []"
  by (cases e; simp add: saveKline_catch_def)+

lemma quiet_try [simp]:
  "emitted (fst (saveKline_try s r a)) = []" "emittedRefs (fst (saveKline_try s r a)) = []"
  by (cases r; simp add: saveKline_try_def Let_def split: sum.splits)+

lemma quiet_guarded [simp]:
  "emitted (saveKline_guarded s r a) = []" "emittedRefs (saveKline_guarded s r a) = []"
  by (simp_all add: saveKline_guarded_def split_beta emitted_append emittedRefs_append
      split: option.splits)

lemma quiet_resume:
  "emitted (snd (step s (SaveSettled r))) = [] \<and> emittedRefs (snd (step s (SaveSettled r))) = []"
  by (cases "suspended s")
     (simp_all add: resume_none resume_some emitted_append emittedRefs_append)

lemma quiet_handleReconnect:
  "emitted (snd (handleReconnect s)) = [] \<and> emittedRefs (snd (handleReconnect s)) = []"
  by (simp add: handleReconnect_def)

lemma quiet_connect:
  "emitted (snd (connect s ok)) = [] \<and> emittedRefs (snd (connect s ok)) = []"
  using quiet_handleReconnect [of s] by (simp add: connect_def split_beta)

text \<open>
  A step hands at most one candle to \<^verbatim>\<open>saveKline\<close>: the copy of the current candle,
  made at a new address, when a ticker message of a later minute arrives and no save is
  awaited.
\<close>

lemma step_emitted:
  assumes ok: "state_ok s"
  shows "(emitted (snd (step s e)) = [] \<and> emittedRefs (snd (step s e)) = []) \<or>
         (\<exists>d k. e = WsMessage (TickerMsg d) \<and> currentKline s = Some k \<and> suspended s = None \<and>
                \<not> processingKline s \<and> \<not> t_le (getTime (time d)) (lastTickTime s) \<and>
                t_gt (minuteOf (getTime (time d))) (klineStartTime s) \<and>
                emitted (snd (step s e)) = [completeKline k] \<and>
                emittedRefs (snd (step s e)) = [length (objects s)])"
proof (cases e)
  case (WsMessage m)
  show ?thesis
  proof (cases m)
    case (TickerMsg d)
    from ok show ?thesis
    proof (cases rule: ptu_cases [of s d])
      case (roll k w c)
      then show ?thesis
        using WsMessage TickerMsg
        by (simp add: handleMessage_def emitted_append emittedRefs_append)
    qed (use WsMessage TickerMsg in
          \<open>simp_all add: handleMessage_def split_beta emitted_append emittedRefs_append\<close>)
  qed (use WsMessage in \<open>simp_all add: handleMessage_def\<close>)
next
  case (SaveSettled r)
  with quiet_resume [of s r] show ?thesis by simp
qed (simp_all add: quiet_connect quiet_handleReconnect handleClose_def handleOpen_def
       handleError_def disconnect_def split_beta split: option.splits)

lemma step_emitted_short: "state_ok s \<Longrightarrow> length (emitted (snd (step s e))) \<le> 1"
  using step_emitted [of s e] by auto

section \<open>The array follows what is handed to \<^verbatim>\<open>saveKline\<close>\<close>

lemma take_append_take: "take n (xs @ take n ys) = take n (xs @ ys)"
  by (simp add: min_def)

lemma step_historyRefs:
  assumes ok: "state_ok s"
  shows "historyRefs (fst (step s e)) =
           take MAX_KLINES (rev (emittedRefs (snd (step s e))) @ historyRefs s)"
proof -
  have len: "length (historyRefs s) \<le> MAX_KLINES"
    using ok by (simp add: state_ok_def)
  have kl: "klines s < length (arrays s)"
    using ok by (simp add: state_ok_def)
  show ?thesis
  proof (cases e)
    case (Connect b)
    with len quiet_connect [of s b] show ?thesis by (simp add: connect_def handleReconnect_def)
  next
    case Disconnect
    with len show ?thesis by (simp add: disconnect_def split: option.splits)
  next
    case GetKlines
    with len kl show ?thesis by (simp add: getKlines_def historyRefs_def nth_append)
  next
    case (CallerWrite a rs)
    with len show ?thesis by (simp add: callerWrite_def historyRefs_def)
  next
    case (CallerSet r c)
    with len show ?thesis by (simp add: callerSet_def)
  next
    case (WsOpen ready)
    with len show ?thesis by (simp add: handleOpen_def split: option.splits)
  next
    case (WsMessage m)
    show ?thesis
    proof (cases m)
      case (TickerMsg d)
      from ok show ?thesis
      proof (cases rule: ptu_cases [of s d])
        case (roll k w c)
        then show ?thesis
          using WsMessage TickerMsg kl
          by (simp add: handleMessage_def emittedRefs_append)
      qed (use WsMessage TickerMsg len in
            \<open>simp_all add: handleMessage_def split_beta emittedRefs_append\<close>)
    qed (use WsMessage len in \<open>simp_all add: handleMessage_def\<close>)
  next
    case WsError
    with len show ?thesis by (simp add: handleError_def)
  next
    case WsClose
    with len show ?thesis by (simp add: handleClose_def handleReconnect_def)
  next
    case (TimerFired b)
    with len show ?thesis by (simp add: connect_def handleReconnect_def)
  next
    case (SaveSettled r)
    with len quiet_resume [of s r] show ?thesis
      by (cases "suspended s") (simp_all add: resume_none resume_some)
  qed
qed

lemma step_history:
  assumes ok: "state_ok s" and keep: "keeps_candles e"
  shows "history (fst (step s e)) = take MAX_KLINES (rev (emitted (snd (step s e))) @ history s)"
proof -
  have len: "length (history s) \<le> MAX_KLINES"
    using ok by (simp add: state_ok_def history_def)
  have kl: "klines s < length (arrays s)"
    using ok by (simp add: state_ok_def)
  have old: "\<forall>r \<in> set (historyRefs s). r < length (objects s)"
    using ok by (simp add: state_ok_def)
  show ?thesis
  proof (cases e)
    case (Connect b)
    with len show ?thesis by (simp add: connect_def handleReconnect_def)
  next
    case Disconnect
    with len show ?thesis by (simp add: disconnect_def split: option.splits)
  next
    case GetKlines
    with len kl show ?thesis by (simp add: getKlines_def history_def historyRefs_def nth_append)
  next
    case (CallerWrite a rs)
    with len show ?thesis by (simp add: callerWrite_def history_def historyRefs_def)
  next
    case (CallerSet r c)
    with keep show ?thesis by simp
  next
    case (WsOpen ready)
    with len show ?thesis by (simp add: handleOpen_def split: option.splits)
  next
    case (WsMessage m)
    show ?thesis
    proof (cases m)
      case (TickerMsg d)
      from ok show ?thesis
      proof (cases rule: ptu_cases [of s d])
        case (roll k w c)
        let ?os = "objects s @ [completeKline k]"
        have "map (\<lambda>r. ?os ! r) (take MAX_KLINES (length (objects s) # historyRefs s)) =
              take MAX_KLINES (map (\<lambda>r. ?os ! r) (length (objects s) # historyRefs s))"
          by (rule take_map [symmetric])
        also have "map (\<lambda>r. ?os ! r) (length (objects s) # historyRefs s) =
                   completeKline k # map (\<lambda>r. ?os ! r) (historyRefs s)"
          by simp
        also have "map (\<lambda>r. ?os ! r) (historyRefs s) = history s"
          unfolding history_def using old by (rule deref_fresh)
        finally have "map (\<lambda>r. ?os ! r) (take MAX_KLINES (length (objects s) # historyRefs s)) =
              take MAX_KLINES (completeKline k # history s)" .
        with roll show ?thesis
          using WsMessage TickerMsg kl
          by (simp add: handleMessage_def emitted_append history_def)
      qed (use WsMessage TickerMsg len in
            \<open>simp_all add: handleMessage_def split_beta emitted_append\<close>)
    qed (use WsMessage len in \<open>simp_all add: handleMessage_def\<close>)
  next
    case WsError
    with len show ?thesis by (simp add: handleError_def)
  next
    case WsClose
    with len show ?thesis by (simp add: handleClose_def handleReconnect_def)
  next
    case (TimerFired b)
    with len show ?thesis by (simp add: connect_def handleReconnect_def)
  next
    case (SaveSettled r)
    with len quiet_resume [of s r] show ?thesis
      by (cases "suspended s") (simp_all add: resume_none resume_some)
  qed
qed

lemma run_historyRefs:
  "state_ok s \<Longrightarrow>
   historyRefs (fst (run s es)) =
     take MAX_KLINES (rev (emittedRefs (snd (run s es))) @ historyRefs s)"
proof (induction es arbitrary: s)
  case Nil
  then show ?case by (simp add: state_ok_def)
next
  case (Cons e es)
  let ?s1 = "fst (step s e)"
  let ?e1 = "emittedRefs (snd (step s e))"
  let ?e2 = "emittedRefs (snd (run ?s1 es))"
  have ok1: "state_ok ?s1" using Cons.prems by (rule ok_step)
  have "historyRefs (fst (run ?s1 es)) = take MAX_KLINES (rev ?e2 @ historyRefs ?s1)"
    using ok1 by (rule Cons.IH)
  also have "historyRefs ?s1 = take MAX_KLINES (rev ?e1 @ historyRefs s)"
    using Cons.prems by (rule step_historyRefs)
  also have "take MAX_KLINES (rev ?e2 @ take MAX_KLINES (rev ?e1 @ historyRefs s)) =
             take MAX_KLINES (rev ?e2 @ rev ?e1 @ historyRefs s)"
    by (rule take_append_take)
  finally have "historyRefs (fst (run ?s1 es)) =
                take MAX_KLINES (rev (?e1 @ ?e2) @ historyRefs s)"
    by simp
  moreover have "fst (run s (e # es)) = fst (run ?s1 es)"
    by (simp add: split_beta)
  moreover have "emittedRefs (snd (run s (e # es))) = ?e1 @ ?e2"
    by (simp add: split_beta emittedRefs_append)
  ultimately show ?case by simp
qed

lemma run_history:
  "state_ok s \<Longrightarrow> \<forall>e \<in> set es. keeps_candles e \<Longrightarrow>
   history (fst (run s es)) = take MAX_KLINES (rev (emitted (snd (run s es))) @ history s)"
proof (induction es arbitrary: s)
  case Nil
  then show ?case by (simp add: state_ok_def history_def)
next
  case (Cons e es)
  let ?s1 = "fst (step s e)"
  let ?e1 = "emitted (snd (step s e))"
  let ?e2 = "emitted (snd (run ?s1 es))"
  have ok1: "state_ok ?s1" using Cons.prems(1) by (rule ok_step)
  have keep: "keeps_candles e" and rest: "\<forall>e \<in> set es. keeps_candles e"
    using Cons.prems(2) by simp_all
  have "history (fst (run ?s1 es)) = take MAX_KLINES (rev ?e2 @ history ?s1)"
    using ok1 rest by (rule Cons.IH)
  also have "history ?s1 = take MAX_KLINES (rev ?e1 @ history s)"
    using Cons.prems(1) keep by (rule step_history)
  also have "take MAX_KLINES (rev ?e2 @ take MAX_KLINES (rev ?e1 @ history s)) =
             take MAX_KLINES (rev ?e2 @ rev ?e1 @ history s)"
    by (rule take_append_take)
  finally have "history (fst (run ?s1 es)) = take MAX_KLINES (rev (?e1 @ ?e2) @ history s)"
    by simp
  moreover have "fst (run s (e # es)) = fst (run ?s1 es)"
    by (simp add: split_beta)
  moreover have "emitted (snd (run s (e # es))) = ?e1 @ ?e2"
    by (simp add: split_beta emitted_append)
  ultimately show ?case by simp
qed

section \<open>The candles handed to \<^verbatim>\<open>saveKline\<close> are well formed\<close>





section \<open>Prices in order\<close>

lemma js_le_refl: "a \<noteq> NaN \<Longrightarrow> js_le a a"
  by (cases a) simp_all


lemma js_le_trans: "js_le a b \<Longrightarrow> js_le b c \<Longrightarrow> js_le a c"
  by (cases a; cases b; cases c) simp_all

lemma js_le_total: "a \<noteq> NaN \<Longrightarrow> b \<noteq> NaN \<Longrightarrow> js_le a b \<or> js_le b a"
  by (cases a; cases b) auto

lemma js_max_upper:
  "a \<noteq> NaN \<Longrightarrow> b \<noteq> NaN \<Longrightarrow> js_le a (js_max a b) \<and> js_le b (js_max a b)"
  using js_le_total [of a b] by (auto simp add: js_max_def js_le_refl)

lemma js_min_lower:
  "a \<noteq> NaN \<Longrightarrow> b \<noteq> NaN \<Longrightarrow> js_le (js_min a b) a \<and> js_le (js_min a b) b"
  using js_le_total [of a b] by (auto simp add: js_min_def js_le_refl)






lemma ordered_conn_upd [simp]:
  "ordered_ok (s\<lparr>reconnectAttempts := n\<rparr>) = ordered_ok s"
  "ordered_ok (s\<lparr>timers := m\<rparr>) = ordered_ok s"
  "ordered_ok (s\<lparr>ws := w\<rparr>) = ordered_ok s"
  "ordered_ok (s\<lparr>sockets := i\<rparr>) = ordered_ok s"
  "ordered_ok (s\<lparr>arrays := as\<rparr>) = ordered_ok s"
  "ordered_ok (s\<lparr>objects := os\<rparr>) = ordered_ok s"
  by (simp_all add: ordered_ok_def)







section \<open>Open times increase\<close>

lemma may_emit_conn_upd [simp]:
  "may_emit (s\<lparr>reconnectAttempts := n\<rparr>) t = may_emit s t"
  "may_emit (s\<lparr>timers := m\<rparr>) t = may_emit s t"
  "may_emit (s\<lparr>ws := w\<rparr>) t = may_emit s t"
  "may_emit (s\<lparr>sockets := i\<rparr>) t = may_emit s t"
  "may_emit (s\<lparr>arrays := as\<rparr>) t = may_emit s t"
  "may_emit (s\<lparr>objects := os\<rparr>) t = may_emit s t"
  "may_emit (s\<lparr>lastTickTime := l\<rparr>) t = may_emit s t"
  by (simp_all add: may_emit_def cong: option.case_cong)

lemma may_emit_handleReconnect: "may_emit (fst (handleReconnect s)) t = may_emit s t"
  by (simp add: handleReconnect_def)

lemma may_emit_connect: "may_emit (fst (connect s b)) t = may_emit s t"
  by (simp add: connect_def split_beta may_emit_handleReconnect)

lemma ptu_emits:
  assumes ok: "state_ok s"
  shows "(\<forall>c \<in> set (emitted (fst (snd (processTickerUpdate s d)))). may_emit s (openTime c)) \<and>
         (may_emit (fst (processTickerUpdate s d)) t \<longrightarrow>
            may_emit s t \<and>
            (\<forall>c \<in> set (emitted (fst (snd (processTickerUpdate s d)))). t_gt t (openTime c)))"
  using ok
proof (cases rule: ptu_cases [of s d])
  case drop
  then show ?thesis by simp
next
  case first
  then show ?thesis by (simp add: may_emit_def)
next
  case (guard k a)
  then show ?thesis by simp
next
  case (roll k w c)
  from ok roll(2) have ot: "openTime k = klineStartTime s" by (simp add: state_ok_def)
  have "t_gt t (Ms w)" if "t_le (Ms c) t"
    using that roll(7) by (cases t) simp_all
  moreover have "t_le (Ms w) t" if "t_le (Ms c) t"
    using that roll(7) by (cases t) simp_all
  ultimately show ?thesis
    using roll ot by (simp add: emitted_append may_emit_def)
next
  case (fold k)
  then show ?thesis by (simp add: may_emit_def cong: option.case_cong)
qed

lemma resume_emits:
  assumes "state_ok s" and "may_emit (fst (resumeTickerUpdate s r)) t"
  shows "may_emit s t"
proof (cases "suspended s")
  case None
  with assms(2) show ?thesis by (simp add: resume_none)
next
  case (Some a)
  with assms(1) obtain k where k: "currentKline s = Some k"
    by (cases "currentKline s") (simp_all add: state_ok_def)
  from assms(2) Some k show ?thesis
    by (simp add: resume_some [OF Some] may_emit_def)
qed

lemma step_emits:
  assumes ok: "state_ok s"
  shows "(\<forall>c \<in> set (emitted (snd (step s e))). may_emit s (openTime c)) \<and>
         (may_emit (fst (step s e)) t \<longrightarrow>
            may_emit s t \<and> (\<forall>c \<in> set (emitted (snd (step s e))). t_gt t (openTime c)))"
proof (cases e)
  case (WsMessage m)
  show ?thesis
  proof (cases m)
    case (TickerMsg d)
    with WsMessage ptu_emits [OF ok, of d t] show ?thesis
      by (simp add: handleMessage_def split_beta emitted_append)
  qed (use WsMessage in \<open>simp_all add: handleMessage_def\<close>)
next
  case (SaveSettled r)
  with resume_emits [OF ok, of r t] quiet_resume [of s r] show ?thesis
    by (simp add: split_beta del: step.simps) (simp add: split_beta)
qed (simp_all add: quiet_connect quiet_handleReconnect may_emit_connect may_emit_handleReconnect
       handleClose_def handleOpen_def handleError_def disconnect_def getKlines_def
       callerWrite_def callerSet_def split_beta split: option.splits)

lemma run_emits:
  "state_ok s \<Longrightarrow>
   sorted_wrt (\<lambda>a b. t_gt (openTime b) (openTime a)) (emitted (snd (run s es))) \<and>
   (\<forall>c \<in> set (emitted (snd (run s es))). may_emit s (openTime c))"
proof (induction es arbitrary: s)
  case Nil
  then show ?case by simp
next
  case (Cons e es)
  let ?s1 = "fst (step s e)"
  let ?e1 = "emitted (snd (step s e))"
  let ?e2 = "emitted (snd (run ?s1 es))"
  have ok1: "state_ok ?s1" using Cons.prems by (rule ok_step)
  note ih = Cons.IH [OF ok1]
  note st = step_emits [OF Cons.prems, of e]
  have s1: "sorted_wrt (\<lambda>a b. t_gt (openTime b) (openTime a)) ?e1"
    using step_emitted_short [OF Cons.prems, of e] by (cases ?e1) simp_all
  have cross: "\<forall>a \<in> set ?e1. \<forall>b \<in> set ?e2. t_gt (openTime b) (openTime a)"
    using ih st by blast
  have all2: "\<forall>c \<in> set ?e2. may_emit s (openTime c)"
    using ih st by blast
  have em: "emitted (snd (run s (e # es))) = ?e1 @ ?e2"
    by (simp add: split_beta emitted_append)
  from s1 ih cross all2 st show ?case
    by (simp only: em sorted_wrt_append set_append) blast
qed

lemma increasing_distinct:
  "sorted_wrt (\<lambda>a b. t_gt (f b) (f a)) xs \<Longrightarrow> distinct (map f xs)"
proof (induction xs)
  case Nil
  then show ?case by simp
next
  case (Cons x xs)
  have "f x \<noteq> f y" if "y \<in> set xs" for y
  proof
    assume eq: "f x = f y"
    from Cons.prems that have "t_gt (f y) (f x)" by simp
    with eq show False by (cases "f y") simp_all
  qed
  with Cons show ?case by auto
qed

section \<open>C7: \<^verbatim>\<open>disconnect\<close>\<close>

lemmas conn_defs = init_def connect_def disconnect_def handleOpen_def handleClose_def
  handleError_def handleReconnect_def MAX_RECONNECT_ATTEMPTS_def RECONNECT_DELAY_def split_beta

text \<open>
  C7, as the claim states it, fails: after \<^verbatim>\<open>connect\<close>, the open event and
  \<^verbatim>\<open>disconnect\<close>, the close event of the socket runs \<^verbatim>\<open>handleReconnect\<close>, which
  schedules a reconnection, and \<^verbatim>\<open>connect\<close> opens a second socket when the delay has
  elapsed.
\<close>

theorem disconnect_close_reconnects:
  "snd (run (fst (run init [Connect True, WsOpen True, Disconnect])) [WsClose, TimerFired True]) =
     [Console LogClosed, Console (LogReconnecting 1), SetTimeout 5000,
      Console LogConnecting, NewWebSocket 1]"
  by (simp add: conn_defs)

text \<open>
  C7, amended. \<^verbatim>\<open>disconnect\<close> closes the socket and clears \<^verbatim>\<open>ws\<close>; called again
  with no \<^verbatim>\<open>connect\<close> in between it does nothing. It starts no reconnection itself
  and leaves \<^verbatim>\<open>reconnectAttempts\<close> as it is. Nothing suppresses reconnection
  afterwards: \<^verbatim>\<open>handleClose\<close> does after \<^verbatim>\<open>disconnect\<close> what it does after any
  close, so while \<^verbatim>\<open>reconnectAttempts < 5\<close> the close event of the socket schedules a
  reconnection after 5000 ms, and \<^verbatim>\<open>connect\<close> then opens a new socket.
\<close>

theorem disconnect_idempotent:
  "disconnect (fst (disconnect s)) = (fst (disconnect s), []) \<and>
   ws (fst (disconnect s)) = None \<and>
   snd (disconnect s) = (case ws s of Some i \<Rightarrow> [WsCloseCall i] | None \<Rightarrow> []) \<and>
   reconnectAttempts (fst (disconnect s)) = reconnectAttempts s \<and>
   timers (fst (disconnect s)) = timers s \<and>
   snd (handleClose (fst (disconnect s))) = snd (handleClose s) \<and>
   fst (handleClose (fst (disconnect s))) = (fst (handleClose s))\<lparr>ws := None\<rparr> \<and>
   (reconnectAttempts s < MAX_RECONNECT_ATTEMPTS \<longrightarrow>
      snd (run (fst (disconnect s)) [WsClose, TimerFired True]) =
        [Console LogClosed, Console (LogReconnecting (reconnectAttempts s + 1)),
         SetTimeout RECONNECT_DELAY, Console LogConnecting, NewWebSocket (sockets s)])"
  by (cases "ws s") (simp_all add: disconnect_def handleClose_def handleReconnect_def connect_def split_beta)

theorem disconnect_idempotent_witness:
  "reconnectAttempts (fst (run init [Connect True, WsOpen True])) < MAX_RECONNECT_ATTEMPTS \<and>
   snd (disconnect (fst (run init [Connect True, WsOpen True]))) = [WsCloseCall 0] \<and>
   disconnect (fst (disconnect (fst (run init [Connect True, WsOpen True])))) =
     (fst (disconnect (fst (run init [Connect True, WsOpen True]))), []) \<and>
   snd (run (fst (disconnect (fst (run init [Connect True, WsOpen True])))) [WsClose, TimerFired True]) =
     [Console LogClosed, Console (LogReconnecting 1), SetTimeout 5000,
      Console LogConnecting, NewWebSocket 1]"
  using disconnect_idempotent [of "fst (run init [Connect True, WsOpen True])"]
  by (simp add: conn_defs)

section \<open>C8: the reconnect budget\<close>

lemma close_retry:
  assumes "reconnectAttempts s < MAX_RECONNECT_ATTEMPTS" and "timers s = 0"
  shows "run s [WsClose, TimerFired True] =
           (s\<lparr>reconnectAttempts := reconnectAttempts s + 1, ws := Some (sockets s),
              sockets := sockets s + 1\<rparr>,
            [Console LogClosed, Console (LogReconnecting (reconnectAttempts s + 1)),
             SetTimeout RECONNECT_DELAY, Console LogConnecting, NewWebSocket (sockets s)])"
  using assms by (simp add: handleClose_def handleReconnect_def connect_def split_beta)

lemma close_exhausted:
  assumes "\<not> reconnectAttempts s < MAX_RECONNECT_ATTEMPTS" and "timers s = 0"
  shows "run s [WsClose, TimerFired True] = (s, [Console LogClosed, Console ErrMaxReached])"
  using assms by (simp add: handleClose_def handleReconnect_def split_beta)

lemma run_append:
  "run s (xs @ ys) =
     (fst (run (fst (run s xs)) ys), snd (run s xs) @ snd (run (fst (run s xs)) ys))"
  by (induction xs arbitrary: s) (simp_all add: split_beta)

lemma closes_Suc: "closes (Suc n) = [WsClose, TimerFired True] @ closes n"
  by simp

lemma run_closes:
  "timers s = 0 \<Longrightarrow> reconnectAttempts s \<le> MAX_RECONNECT_ATTEMPTS \<Longrightarrow>
   length (opened (snd (run s (closes n)))) = min n (MAX_RECONNECT_ATTEMPTS - reconnectAttempts s) \<and>
   (Console ErrMaxReached \<in> set (snd (run s (closes n))) \<longleftrightarrow>
      MAX_RECONNECT_ATTEMPTS - reconnectAttempts s < n) \<and>
   reconnectAttempts (fst (run s (closes n))) = min MAX_RECONNECT_ATTEMPTS (reconnectAttempts s + n) \<and>
   timers (fst (run s (closes n))) = 0"
proof (induction n arbitrary: s)
  case 0
  then show ?case by simp
next
  case (Suc n)
  show ?case
  proof (cases "reconnectAttempts s < MAX_RECONNECT_ATTEMPTS")
    case True
    let ?s1 = "s\<lparr>reconnectAttempts := reconnectAttempts s + 1, ws := Some (sockets s),
                  sockets := sockets s + 1\<rparr>"
    have t1: "timers ?s1 = 0" using Suc.prems by simp
    have a1: "reconnectAttempts ?s1 \<le> MAX_RECONNECT_ATTEMPTS" using True by simp
    from Suc.IH [OF t1 a1] True show ?thesis
      by (simp only: closes_Suc run_append close_retry [OF True Suc.prems(1)] fst_conv snd_conv
          opened_append set_append)
         (auto simp add: opened_append)
  next
    case False
    with Suc.prems have eq: "reconnectAttempts s = MAX_RECONNECT_ATTEMPTS" by simp
    from Suc.IH [OF Suc.prems] eq show ?thesis
      by (simp only: closes_Suc run_append close_exhausted [OF False Suc.prems(1)] fst_conv snd_conv
          opened_append set_append)
         (auto simp add: opened_append)
  qed
qed


lemma run_closes_retry:
  "timers s = 0 \<Longrightarrow> reconnectAttempts s + n \<le> MAX_RECONNECT_ATTEMPTS \<Longrightarrow>
   opened (snd (run s (closes n))) = [sockets s ..< sockets s + n] \<and>
   Console ErrMaxReached \<notin> set (snd (run s (closes n)))"
proof (induction n arbitrary: s)
  case 0
  then show ?case by simp
next
  case (Suc n)
  let ?s1 = "s\<lparr>reconnectAttempts := reconnectAttempts s + 1, ws := Some (sockets s),
                sockets := sockets s + 1\<rparr>"
  have lt: "reconnectAttempts s < MAX_RECONNECT_ATTEMPTS" using Suc.prems by simp
  have t1: "timers ?s1 = 0" using Suc.prems by simp
  have a1: "reconnectAttempts ?s1 + n \<le> MAX_RECONNECT_ATTEMPTS" using Suc.prems by simp
  from Suc.IH [OF t1 a1] show ?case
    by (simp only: closes_Suc run_append close_retry [OF lt Suc.prems(1)] fst_conv snd_conv
        opened_append set_append)
       (simp add: upt_conv_Cons)
qed

text \<open>
  C8, as the claim states it, fails twice. An error event of the socket is only printed:
  \<^verbatim>\<open>reconnectAttempts\<close> stays 0 and no reconnection is scheduled. And from a cold start,
  after five connection attempts in a row have failed (no open event) a sixth socket is
  opened and no terminal message has been printed yet.
\<close>

theorem reconnect_budget_counterexample:
  "step (fst (step init (Connect True))) WsError =
     (fst (step init (Connect True)), [Console ErrWebSocket, Console ErrDetails]) \<and>
   reconnectAttempts (fst (step init (Connect True))) = 0 \<and>
   opened (snd (run init [Connect True, WsClose, TimerFired True, WsClose, TimerFired True,
                          WsClose, TimerFired True, WsClose, TimerFired True,
                          WsClose, TimerFired True])) = [0, 1, 2, 3, 4, 5] \<and>
   Console ErrMaxReached \<notin>
     set (snd (run init [Connect True, WsClose, TimerFired True, WsClose, TimerFired True,
                         WsClose, TimerFired True, WsClose, TimerFired True,
                         WsClose, TimerFired True]))"
proof -
  let ?s = "fst (step init (Connect True))"
  have c5: "[WsClose, TimerFired True, WsClose, TimerFired True, WsClose, TimerFired True,
             WsClose, TimerFired True, WsClose, TimerFired True] = closes 5"
    by (simp add: eval_nat_numeral)
  have first: "step init (Connect True) =
                 (init\<lparr>ws := Some 0, sockets := 1\<rparr>, [Console LogConnecting, NewWebSocket 0])"
    by (simp add: connect_def init_def)
  have t: "timers ?s = 0" and a: "reconnectAttempts ?s + 5 \<le> MAX_RECONNECT_ATTEMPTS"
    and k: "sockets ?s = 1"
    by (simp_all only: first fst_conv) (simp_all add: init_def MAX_RECONNECT_ATTEMPTS_def)
  have u: "[Suc 0..<6] = [1, 2, 3, 4, 5]" by code_simp
  from run_closes_retry [OF t a] k u
  have rest: "opened (snd (run ?s (closes 5))) = [1, 2, 3, 4, 5]"
    "Console ErrMaxReached \<notin> set (snd (run ?s (closes 5)))"
    by (simp_all del: step.simps run.simps closes.simps)
  have err: "step ?s WsError = (?s, [Console ErrWebSocket, Console ErrDetails])"
    by (simp only: step.simps(8) handleError_def)
  have a0: "reconnectAttempts ?s = 0" by (simp only: first fst_conv) (simp add: init_def)
  have unfold: "run init (Connect True # closes 5) =
          (fst (run ?s (closes 5)), snd (step init (Connect True)) @ snd (run ?s (closes 5)))"
    by (simp add: split_beta del: step.simps closes.simps)
  from rest have
    "opened (snd (run init (Connect True # closes 5))) = [0, 1, 2, 3, 4, 5]"
    "Console ErrMaxReached \<notin> set (snd (run init (Connect True # closes 5)))"
    by (simp_all only: unfold snd_conv opened_append set_append first)
       (simp_all del: step.simps run.simps closes.simps)
  with err a0 show ?thesis by (simp only: c5 simp_thms)
qed

text \<open>
  C8, amended. A close event of a socket, and a \<^verbatim>\<open>connect\<close> whose socket cannot be
  created, run \<^verbatim>\<open>handleReconnect\<close>: while \<^verbatim>\<open>reconnectAttempts < 5\<close> it adds one to
  \<^verbatim>\<open>reconnectAttempts\<close>, waits 5000 ms and calls \<^verbatim>\<open>connect\<close> again; once
  \<^verbatim>\<open>reconnectAttempts\<close> is 5 it starts nothing and prints the terminal message. An error
  event of a socket is only printed. The open event sets \<^verbatim>\<open>reconnectAttempts\<close> to 0.
  So, with no open event in between and counted from \<^verbatim>\<open>reconnectAttempts = 0\<close>, \<open>n\<close>
  closes in a row start \<open>min n 5\<close> reconnections, and the terminal message is printed
  exactly when \<open>n > 5\<close>: after five reconnection attempts have failed, which from a cold
  start are six failed connection attempts.
\<close>

theorem reconnect_budget:
  "MAX_RECONNECT_ATTEMPTS = 5 \<and> RECONNECT_DELAY = 5000 \<and>
   handleError s = (s, [Console ErrWebSocket, Console ErrDetails]) \<and>
   reconnectAttempts (fst (handleOpen s ready)) = 0 \<and>
   fst (connect s False) = fst (handleReconnect s) \<and>
   snd (connect s False) = [Console LogConnecting, Console ErrEstablish] @ snd (handleReconnect s) \<and>
   fst (handleClose s) = fst (handleReconnect s) \<and>
   snd (handleClose s) = Console LogClosed # snd (handleReconnect s) \<and>
   (reconnectAttempts s < MAX_RECONNECT_ATTEMPTS \<longrightarrow>
      handleReconnect s =
        (s\<lparr>reconnectAttempts := reconnectAttempts s + 1, timers := timers s + 1\<rparr>,
         [Console (LogReconnecting (reconnectAttempts s + 1)), SetTimeout RECONNECT_DELAY]) \<and>
      snd (step (fst (handleReconnect s)) (TimerFired True)) =
        [Console LogConnecting, NewWebSocket (sockets s)]) \<and>
   (\<not> reconnectAttempts s < MAX_RECONNECT_ATTEMPTS \<longrightarrow>
      handleReconnect s = (s, [Console ErrMaxReached])) \<and>
   (reconnectAttempts s = 0 \<and> timers s = 0 \<longrightarrow>
      length (opened (snd (run s (closes n)))) = min n MAX_RECONNECT_ATTEMPTS \<and>
      (Console ErrMaxReached \<in> set (snd (run s (closes n))) \<longleftrightarrow> MAX_RECONNECT_ATTEMPTS < n))"
proof -
  have budget: "length (opened (snd (run s (closes n)))) = min n MAX_RECONNECT_ATTEMPTS \<and>
      (Console ErrMaxReached \<in> set (snd (run s (closes n))) \<longleftrightarrow> MAX_RECONNECT_ATTEMPTS < n)"
    if "reconnectAttempts s = 0" and "timers s = 0"
    using run_closes [of s n] that by simp
  have rest: "MAX_RECONNECT_ATTEMPTS = 5 \<and> RECONNECT_DELAY = 5000 \<and>
   handleError s = (s, [Console ErrWebSocket, Console ErrDetails]) \<and>
   reconnectAttempts (fst (handleOpen s ready)) = 0 \<and>
   fst (connect s False) = fst (handleReconnect s) \<and>
   snd (connect s False) = [Console LogConnecting, Console ErrEstablish] @ snd (handleReconnect s) \<and>
   fst (handleClose s) = fst (handleReconnect s) \<and>
   snd (handleClose s) = Console LogClosed # snd (handleReconnect s) \<and>
   (reconnectAttempts s < MAX_RECONNECT_ATTEMPTS \<longrightarrow>
      handleReconnect s =
        (s\<lparr>reconnectAttempts := reconnectAttempts s + 1, timers := timers s + 1\<rparr>,
         [Console (LogReconnecting (reconnectAttempts s + 1)), SetTimeout RECONNECT_DELAY]) \<and>
      snd (step (fst (handleReconnect s)) (TimerFired True)) =
        [Console LogConnecting, NewWebSocket (sockets s)]) \<and>
   (\<not> reconnectAttempts s < MAX_RECONNECT_ATTEMPTS \<longrightarrow>
      handleReconnect s = (s, [Console ErrMaxReached]))"
    by (simp add: handleError_def handleOpen_def connect_def handleClose_def handleReconnect_def
        split_beta MAX_RECONNECT_ATTEMPTS_def RECONNECT_DELAY_def)
  from budget rest show ?thesis by blast
qed

theorem reconnect_budget_witness:
  "reconnectAttempts (fst (step init (Connect True))) = 0 \<and>
   timers (fst (step init (Connect True))) = 0 \<and>
   length (opened (snd (run (fst (step init (Connect True))) (closes 6)))) = 5 \<and>
   Console ErrMaxReached \<in> set (snd (run (fst (step init (Connect True))) (closes 6))) \<and>
   length (opened (snd (run (fst (step init (Connect True))) (closes 5)))) = 5 \<and>
   Console ErrMaxReached \<notin> set (snd (run (fst (step init (Connect True))) (closes 5))) \<and>
   snd (step (fst (handleReconnect (fst (step init (Connect True))))) (TimerFired True)) =
     [Console LogConnecting, NewWebSocket 1]"
proof -
  let ?s = "fst (step init (Connect True))"
  have a: "reconnectAttempts ?s = 0" and t: "timers ?s = 0" and k: "sockets ?s = 1"
    by (simp_all add: conn_defs)
  have b6: "length (opened (snd (run ?s (closes 6)))) = min 6 MAX_RECONNECT_ATTEMPTS \<and>
      (Console ErrMaxReached \<in> set (snd (run ?s (closes 6))) \<longleftrightarrow> MAX_RECONNECT_ATTEMPTS < 6)"
    using reconnect_budget [of ?s True 6] a t by blast
  have b5: "length (opened (snd (run ?s (closes 5)))) = min 5 MAX_RECONNECT_ATTEMPTS \<and>
      (Console ErrMaxReached \<in> set (snd (run ?s (closes 5))) \<longleftrightarrow> MAX_RECONNECT_ATTEMPTS < 5)"
    using reconnect_budget [of ?s True 5] a t by blast
  have lt: "reconnectAttempts ?s < MAX_RECONNECT_ATTEMPTS"
    using a by (simp add: MAX_RECONNECT_ATTEMPTS_def)
  have retry: "snd (step (fst (handleReconnect ?s)) (TimerFired True)) =
        [Console LogConnecting, NewWebSocket (sockets ?s)]"
    using reconnect_budget [of ?s True 0] lt by blast
  have m: "min 6 MAX_RECONNECT_ATTEMPTS = 5" "min 5 MAX_RECONNECT_ATTEMPTS = 5"
    "MAX_RECONNECT_ATTEMPTS < 6" "\<not> MAX_RECONNECT_ATTEMPTS < 5"
    by (simp_all add: MAX_RECONNECT_ATTEMPTS_def)
  from b6 m have c6: "length (opened (snd (run ?s (closes 6)))) = 5"
    "Console ErrMaxReached \<in> set (snd (run ?s (closes 6)))"
    by (simp_all only: simp_thms)
  from b5 m have c5: "length (opened (snd (run ?s (closes 5)))) = 5"
    "Console ErrMaxReached \<notin> set (snd (run ?s (closes 5)))"
    by (simp_all only: simp_thms)
  from retry k have r: "snd (step (fst (handleReconnect ?s)) (TimerFired True)) =
        [Console LogConnecting, NewWebSocket 1]"
    by (simp only:)
  from a t c6 c5 r show ?thesis by (intro conjI)
qed

section \<open>C2: the tick filter\<close>

text \<open>Unfolding these evaluates a run on concrete events.\<close>

lemmas eval_defs = tickAt_def init_def handleMessage_def processTickerUpdate_def Let_def bucket_def
   startKline_def logStarted_def allocate_def pushKline_def historyRefs_def history_def
   MAX_KLINES_def MAX_TIME_def resumeTickerUpdate_def saveKline_guarded_def saveKline_try_def
   saveKline_catch_def completeKline_def newKline_def EXCHANGE_def updateKline_def js_max_def
   js_min_def getKlines_def callerWrite_def callerSet_def unhandled_def split_beta

lemma ptu_watermark:
  "\<not> t_le (getTime (time d)) (lastTickTime s) \<Longrightarrow>
   lastTickTime (fst (processTickerUpdate s d)) = getTime (time d)"
  by (simp add: processTickerUpdate_def Let_def startKline_def allocate_def pushKline_def
      split_beta split: option.splits sum.splits)

lemma step_watermark:
  "\<not> t_le (getTime (time d)) (lastTickTime s) \<Longrightarrow>
   lastTickTime (fst (step s (WsMessage (TickerMsg d)))) = getTime (time d)"
  by (simp add: handleMessage_def split_beta ptu_watermark)

lemma admitted_changes:
  assumes adm: "\<not> t_le (getTime (time d)) (lastTickTime s)"
  shows "step s (WsMessage (TickerMsg d)) \<noteq> (s, [])"
proof
  assume same: "step s (WsMessage (TickerMsg d)) = (s, [])"
  then have "lastTickTime (fst (step s (WsMessage (TickerMsg d)))) = lastTickTime s" by simp
  with step_watermark [OF adm] have eq: "getTime (time d) = lastTickTime s" by simp
  have self: "\<not> t_le (lastTickTime s) (lastTickTime s)"
    using adm unfolding eq .
  then have nat2: "lastTickTime s = NaT" by (cases "lastTickTime s") simp_all
  with eq have nat: "getTime (time d) = NaT" "lastTickTime s = NaT" by (simp_all only:)
  show False
  proof (cases "currentKline s")
    case None
    show False
    proof (cases "processingKline s")
      case True
      with adm None have "processTickerUpdate s d =
          (s\<lparr>lastTickTime := getTime (time d)\<rparr>, [Console LogWaiting], None)"
        by (simp add: ptu_guard)
      with same show False by (simp add: handleMessage_def)
    next
      case False
      from ptu_first [OF adm None False] nat same show False
        by (simp add: handleMessage_def logStarted_def unhandled_def)
    qed
  next
    case (Some k)
    from nat have "\<not> t_gt (minuteOf (getTime (time d))) (klineStartTime s)" by simp
    from ptu_fold [OF adm Some this] same
    have "currentKline (s\<lparr>lastTickTime := getTime (time d),
            currentKline := Some (updateKline k (price d) (last_size d))\<rparr>) = currentKline s"
      by (simp add: handleMessage_def unhandled_def)
    with Some show False by (simp add: updateKline_neq)
  qed
qed

text \<open>
  C2, as the claim states it, fails for a ticker message whose time does not parse.
  \<^verbatim>\<open>getTime()\<close> is then \<^verbatim>\<open>NaN\<close>, \<^verbatim>\<open>NaN <= lastTickTime\<close> is false and the message is
  not dropped: after a tick at 100, a ticker message without a time is folded into the
  candle and sets the watermark to \<^verbatim>\<open>NaN\<close>; with that watermark the next tick, at 50, is
  admitted too, although an older one, and moves the watermark back to 50.
\<close>

theorem tick_filter_counterexample:
  "lastTickTime (fst (run init [tickAt 100 1 1])) = Ms 100 \<and>
   lastTickTime (fst (run init [tickAt 100 1 1,
      WsMessage (TickerMsg \<lparr>time = None, price = Fin 2, last_size = Fin 1\<rparr>)])) = NaT \<and>
   map_option trades (currentKline (fst (run init [tickAt 100 1 1,
      WsMessage (TickerMsg \<lparr>time = None, price = Fin 2, last_size = Fin 1\<rparr>)]))) = Some 2 \<and>
   lastTickTime (fst (run init [tickAt 100 1 1,
      WsMessage (TickerMsg \<lparr>time = None, price = Fin 2, last_size = Fin 1\<rparr>),
      tickAt 50 3 1])) = Ms 50 \<and>
   map_option close (currentKline (fst (run init [tickAt 100 1 1,
      WsMessage (TickerMsg \<lparr>time = None, price = Fin 2, last_size = Fin 1\<rparr>),
      tickAt 50 3 1]))) = Some (Fin 3)"
  by (simp add: eval_defs)

text \<open>
  C2, amended. A ticker message leaves the state as it is and produces nothing exactly
  when \<^verbatim>\<open>time <= lastTickTime\<close> holds; otherwise the tick passes the filter and the
  watermark becomes its time, whatever branch the tick takes afterwards. When the time of
  the message parses and the watermark is a number, the message is dropped exactly when
  its time is at most the watermark, and admitted exactly when it is greater. A message
  whose time does not parse is never dropped, and sets the watermark to \<^verbatim>\<open>NaN\<close>; while
  the watermark is \<^verbatim>\<open>NaN\<close> no message is dropped, whatever its time.
\<close>

theorem tick_filter:
  "(step s (WsMessage (TickerMsg d)) = (s, []) \<longleftrightarrow> t_le (getTime (time d)) (lastTickTime s)) \<and>
   (\<not> t_le (getTime (time d)) (lastTickTime s) \<longrightarrow>
      lastTickTime (fst (step s (WsMessage (TickerMsg d)))) = getTime (time d)) \<and>
   (getTime (time d) = Ms t \<and> lastTickTime s = Ms l \<longrightarrow>
      (step s (WsMessage (TickerMsg d)) = (s, []) \<longleftrightarrow> t \<le> l) \<and>
      (l < t \<longrightarrow> lastTickTime (fst (step s (WsMessage (TickerMsg d)))) = Ms t)) \<and>
   (getTime (time d) = NaT \<or> lastTickTime s = NaT \<longrightarrow>
      step s (WsMessage (TickerMsg d)) \<noteq> (s, []) \<and>
      lastTickTime (fst (step s (WsMessage (TickerMsg d)))) = getTime (time d))"
proof -
  have iff: "step s (WsMessage (TickerMsg d)) = (s, []) \<longleftrightarrow>
             t_le (getTime (time d)) (lastTickTime s)"
    using admitted_changes [of d s]
    by (auto simp add: handleMessage_def ptu_drop unhandled_def)
  have adm: "\<not> t_le (getTime (time d)) (lastTickTime s) \<longrightarrow>
      lastTickTime (fst (step s (WsMessage (TickerMsg d)))) = getTime (time d)"
    using step_watermark [of d s] by blast
  have num: "(step s (WsMessage (TickerMsg d)) = (s, []) \<longleftrightarrow> t \<le> l) \<and>
      (l < t \<longrightarrow> lastTickTime (fst (step s (WsMessage (TickerMsg d)))) = Ms t)"
    if "getTime (time d) = Ms t" "lastTickTime s = Ms l"
    using iff adm that by (simp del: step.simps)
  have nan: "step s (WsMessage (TickerMsg d)) \<noteq> (s, []) \<and>
      lastTickTime (fst (step s (WsMessage (TickerMsg d)))) = getTime (time d)"
    if "getTime (time d) = NaT \<or> lastTickTime s = NaT"
  proof -
    from that have "\<not> t_le (getTime (time d)) (lastTickTime s)" by auto
    with iff adm show ?thesis by blast
  qed
  from num have pnum: "getTime (time d) = Ms t \<and> lastTickTime s = Ms l \<longrightarrow>
      (step s (WsMessage (TickerMsg d)) = (s, []) \<longleftrightarrow> t \<le> l) \<and>
      (l < t \<longrightarrow> lastTickTime (fst (step s (WsMessage (TickerMsg d)))) = Ms t)"
    by blast
  from nan have pnan: "getTime (time d) = NaT \<or> lastTickTime s = NaT \<longrightarrow>
      step s (WsMessage (TickerMsg d)) \<noteq> (s, []) \<and>
      lastTickTime (fst (step s (WsMessage (TickerMsg d)))) = getTime (time d)"
    by blast
  from iff adm pnum pnan show ?thesis by (intro conjI)
qed

theorem tick_filter_witness:
  "getTime (Some 0) = Ms 0 \<and> getTime (Some 5) = Ms 5 \<and> getTime None = NaT \<and>
   lastTickTime init = Ms 0 \<and>
   step init (WsMessage (TickerMsg \<lparr>time = Some 0, price = Fin 100, last_size = Fin 1\<rparr>)) =
     (init, []) \<and>
   lastTickTime (fst (step init
     (WsMessage (TickerMsg \<lparr>time = Some 5, price = Fin 100, last_size = Fin 1\<rparr>)))) = Ms 5 \<and>
   step init (WsMessage (TickerMsg \<lparr>time = None, price = Fin 100, last_size = Fin 1\<rparr>)) \<noteq>
     (init, []) \<and>
   lastTickTime (fst (step init
     (WsMessage (TickerMsg \<lparr>time = None, price = Fin 100, last_size = Fin 1\<rparr>)))) = NaT"
proof -
  have g: "getTime (Some 0) = Ms 0" "getTime (Some 5) = Ms 5" "getTime None = NaT"
    "lastTickTime init = Ms 0"
    by (simp_all add: MAX_TIME_def init_def)
  let ?d0 = "\<lparr>time = Some 0, price = Fin 100, last_size = Fin 1\<rparr>"
  let ?d5 = "\<lparr>time = Some 5, price = Fin 100, last_size = Fin 1\<rparr>"
  let ?dn = "\<lparr>time = None, price = Fin 100, last_size = Fin 1\<rparr>"
  from tick_filter [of init ?d0 0 0] g
  have a: "step init (WsMessage (TickerMsg ?d0)) = (init, [])"
    by (simp del: step.simps getTime.simps)
  from tick_filter [of init ?d5 5 0] g
  have b: "lastTickTime (fst (step init (WsMessage (TickerMsg ?d5)))) = Ms 5"
    by (simp del: step.simps getTime.simps)
  from tick_filter [of init ?dn 0 0] g
  have c: "step init (WsMessage (TickerMsg ?dn)) \<noteq> (init, [])"
    "lastTickTime (fst (step init (WsMessage (TickerMsg ?dn)))) = NaT"
    by (simp_all del: step.simps getTime.simps)
  from g a b c show ?thesis by (intro conjI)
qed

section \<open>C5: the array of completed candles\<close>

lemma getKlines_copy:
  assumes ok: "state_ok s"
  shows "arrays (fst (getKlines s)) ! snd (getKlines s) = historyRefs s"
    and "snd (getKlines s) \<noteq> klines (fst (getKlines s))"
    and "historyRefs (fst (getKlines s)) = historyRefs s"
    and "history (fst (getKlines s)) = history s"
    and "historyRefs (callerWrite (fst (getKlines s)) (snd (getKlines s)) rs) = historyRefs s"
    and "history (callerWrite (fst (getKlines s)) (snd (getKlines s)) rs) = history s"
proof -
  have kl: "klines s < length (arrays s)" using ok by (simp add: state_ok_def)
  show "arrays (fst (getKlines s)) ! snd (getKlines s) = historyRefs s"
    by (simp add: getKlines_def)
  show "snd (getKlines s) \<noteq> klines (fst (getKlines s))"
    using kl by (simp add: getKlines_def)
  show "historyRefs (fst (getKlines s)) = historyRefs s"
    using kl by (simp add: getKlines_def historyRefs_def nth_append)
  show "history (fst (getKlines s)) = history s"
    using kl by (simp add: getKlines_def history_def historyRefs_def nth_append)
  show "historyRefs (callerWrite (fst (getKlines s)) (snd (getKlines s)) rs) = historyRefs s"
    using kl by (simp add: getKlines_def callerWrite_def historyRefs_def nth_append)
  show "history (callerWrite (fst (getKlines s)) (snd (getKlines s)) rs) = history s"
    using kl by (simp add: getKlines_def callerWrite_def history_def historyRefs_def nth_append)
qed

lemma getKlines_shared:
  assumes ok: "state_ok s" and i: "i < length (historyRefs s)"
  shows "history (callerSet (fst (getKlines s))
                    (arrays (fst (getKlines s)) ! snd (getKlines s) ! i) c) ! i = c"
proof -
  have kl: "klines s < length (arrays s)" using ok by (simp add: state_ok_def)
  have "historyRefs s ! i \<in> set (historyRefs s)" using i by simp
  with ok have b: "historyRefs s ! i < length (objects s)" by (simp add: state_ok_def)
  have r: "arrays (fst (getKlines s)) ! snd (getKlines s) ! i = historyRefs s ! i"
    by (simp add: getKlines_def)
  have h: "historyRefs (callerSet (fst (getKlines s)) (historyRefs s ! i) c) = historyRefs s"
    using kl by (simp add: callerSet_def getKlines_def historyRefs_def nth_append)
  show ?thesis
    unfolding r using i b h
    by (simp add: history_def) (simp add: callerSet_def getKlines_def)
qed

text \<open>
  C5, as the claim states it, fails in its last part. \<^verbatim>\<open>getKlines\<close> returns a new
  array, but its elements are the objects of the private array. After the candle of
  minute 0 has been completed (ticks at 1 and 60001), the private array (array 0) and the
  array \<^verbatim>\<open>getKlines\<close> returns (array 1) both hold object 0; a caller that assigns 999
  to the field \<^verbatim>\<open>close\<close> of element 0 of the array it got changes the candle the private
  array holds.
\<close>

theorem history_buffer_counterexample:
  "snd (step (fst (run init [tickAt 1 100 1, tickAt 60001 105 2])) GetKlines) = [ReturnArray 1] \<and>
   klines (fst (run init [tickAt 1 100 1, tickAt 60001 105 2, GetKlines])) = 0 \<and>
   arrays (fst (run init [tickAt 1 100 1, tickAt 60001 105 2, GetKlines])) = [[0], [0]] \<and>
   history (fst (run init [tickAt 1 100 1, tickAt 60001 105 2, GetKlines])) =
     [\<lparr>symbol = ''BTC-USD'', interval = ''1m'', openTime = Ms 0, closeTime = Ms 60000,
       open_price = Fin 100, high = Fin 100, low = Fin 100, close = Fin 100,
       volume = Fin 1, trades = 1, exchange = ''COINBASE''\<rparr>] \<and>
   history (fst (run init [tickAt 1 100 1, tickAt 60001 105 2, GetKlines,
      CallerSet 0 \<lparr>symbol = ''BTC-USD'', interval = ''1m'', openTime = Ms 0, closeTime = Ms 60000,
                   open_price = Fin 100, high = Fin 100, low = Fin 100, close = Fin 999,
                   volume = Fin 1, trades = 1, exchange = ''COINBASE''\<rparr>])) =
     [\<lparr>symbol = ''BTC-USD'', interval = ''1m'', openTime = Ms 0, closeTime = Ms 60000,
       open_price = Fin 100, high = Fin 100, low = Fin 100, close = Fin 999,
       volume = Fin 1, trades = 1, exchange = ''COINBASE''\<rparr>]"
  by (simp add: eval_defs)

text \<open>
  C5, amended. After any sequence of events from the initial state the private array
  holds at most \<open>MAX_KLINES = 50\<close> candles, and they are the last 50 objects handed to
  \<^verbatim>\<open>saveKline\<close>, newest first; as long as no code outside the class has written to a
  candle object, their fields are those they were handed over with. Completing a candle
  puts it at the head of the array and, when the array was full, removes the last element
  and nothing else. \<^verbatim>\<open>getKlines\<close> returns a new array with the same elements: whatever
  a caller assigns to the array it got (its length, its elements), the private array keeps
  its elements and they keep their fields; but the elements of the two arrays are the same
  objects, so an assignment to a field of an element of the returned array changes the
  candle at that place of the private array.
\<close>

theorem history_buffer:
  assumes reach: "s = fst (run init es)"
  shows
  "MAX_KLINES = 50 \<and>
   length (historyRefs s) \<le> MAX_KLINES \<and> length (history s) \<le> MAX_KLINES \<and>
   historyRefs s = take MAX_KLINES (rev (emittedRefs (snd (run init es)))) \<and>
   ((\<forall>e \<in> set es. keeps_candles e) \<longrightarrow>
      history s = take MAX_KLINES (rev (emitted (snd (run init es))))) \<and>
   historyRefs (fst (pushKline s r)) =
     (if length (historyRefs s) < MAX_KLINES then r # historyRefs s
      else r # butlast (historyRefs s)) \<and>
   snd (pushKline s r) =
     Unshift r # (if length (historyRefs s) < MAX_KLINES then [] else [Pop]) \<and>
   arrays (fst (getKlines s)) ! snd (getKlines s) = historyRefs s \<and>
   snd (getKlines s) \<noteq> klines (fst (getKlines s)) \<and>
   historyRefs (fst (getKlines s)) = historyRefs s \<and>
   history (fst (getKlines s)) = history s \<and>
   (\<forall>rs. historyRefs (callerWrite (fst (getKlines s)) (snd (getKlines s)) rs) = historyRefs s \<and>
         history (callerWrite (fst (getKlines s)) (snd (getKlines s)) rs) = history s) \<and>
   (\<forall>i c. i < length (historyRefs s) \<longrightarrow>
      history (callerSet (fst (getKlines s))
                 (arrays (fst (getKlines s)) ! snd (getKlines s) ! i) c) ! i = c)"
proof -
  have ok: "state_ok s" unfolding reach using ok_init by (rule ok_run)
  then have len: "length (historyRefs s) \<le> MAX_KLINES" and kl: "klines s < length (arrays s)"
    by (simp_all add: state_ok_def)
  then have lenh: "length (history s) \<le> MAX_KLINES" by (simp add: history_def)
  have m: "MAX_KLINES = 50" by (simp add: MAX_KLINES_def)
  have r0: "historyRefs init = []" and h0: "history init = []"
    by (simp_all add: init_def history_def historyRefs_def)
  have refs: "historyRefs s = take MAX_KLINES (rev (emittedRefs (snd (run init es))))"
    unfolding reach using run_historyRefs [OF ok_init, of es] r0 by simp
  have vals: "(\<forall>e \<in> set es. keeps_candles e) \<longrightarrow>
      history s = take MAX_KLINES (rev (emitted (snd (run init es))))"
    unfolding reach using run_history [OF ok_init, of es] h0 by simp
  have push: "historyRefs (fst (pushKline s r)) =
     (if length (historyRefs s) < MAX_KLINES then r # historyRefs s
      else r # butlast (historyRefs s))"
    using len kl by (auto simp add: pushKline_def Let_def MAX_KLINES_def)
  have pushed: "snd (pushKline s r) =
     Unshift r # (if length (historyRefs s) < MAX_KLINES then [] else [Pop])"
    using len by (auto simp add: pushKline_def Let_def MAX_KLINES_def)
  note copy = getKlines_copy [OF ok]
  have wr: "\<forall>rs. historyRefs (callerWrite (fst (getKlines s)) (snd (getKlines s)) rs) =
                   historyRefs s \<and>
                 history (callerWrite (fst (getKlines s)) (snd (getKlines s)) rs) = history s"
    using copy(5,6) by blast
  have sh: "\<forall>i c. i < length (historyRefs s) \<longrightarrow>
      history (callerSet (fst (getKlines s))
                 (arrays (fst (getKlines s)) ! snd (getKlines s) ! i) c) ! i = c"
    using getKlines_shared [OF ok] by blast
  from m len lenh refs vals push pushed copy(1-4) wr sh show ?thesis by (intro conjI)
qed

theorem history_buffer_witness:
  "keeps_candles (tickAt 1 100 1) \<and> keeps_candles (tickAt 60001 105 2) \<and>
   historyRefs (fst (run init [tickAt 1 100 1, tickAt 60001 105 2])) = [0] \<and>
   history (fst (run init [tickAt 1 100 1, tickAt 60001 105 2])) =
     [\<lparr>symbol = ''BTC-USD'', interval = ''1m'', openTime = Ms 0, closeTime = Ms 60000,
       open_price = Fin 100, high = Fin 100, low = Fin 100, close = Fin 100,
       volume = Fin 1, trades = 1, exchange = ''COINBASE''\<rparr>] \<and>
   emitted (snd (run init [tickAt 1 100 1, tickAt 60001 105 2])) =
     [\<lparr>symbol = ''BTC-USD'', interval = ''1m'', openTime = Ms 0, closeTime = Ms 60000,
       open_price = Fin 100, high = Fin 100, low = Fin 100, close = Fin 100,
       volume = Fin 1, trades = 1, exchange = ''COINBASE''\<rparr>] \<and>
   snd (getKlines (fst (run init [tickAt 1 100 1, tickAt 60001 105 2]))) = 1 \<and>
   klines (fst (run init [tickAt 1 100 1, tickAt 60001 105 2])) = 0 \<and>
   history (callerSet (fst (getKlines (fst (run init [tickAt 1 100 1, tickAt 60001 105 2]))))
              (arrays (fst (getKlines (fst (run init [tickAt 1 100 1, tickAt 60001 105 2])))) !
                 snd (getKlines (fst (run init [tickAt 1 100 1, tickAt 60001 105 2]))) ! 0)
              (completeKline (newKline (Ms 7) NaN NaN))) ! 0 =
     completeKline (newKline (Ms 7) NaN NaN)"
proof -
  let ?es = "[tickAt 1 100 1, tickAt 60001 105 2]"
  let ?s = "fst (run init ?es)"
  let ?c = "\<lparr>symbol = ''BTC-USD'', interval = ''1m'', openTime = Ms 0, closeTime = Ms 60000,
       open_price = Fin 100, high = Fin 100, low = Fin 100, close = Fin 100,
       volume = Fin 1, trades = 1, exchange = ''COINBASE''\<rparr>"
  have keep: "keeps_candles (tickAt 1 100 1)" "keeps_candles (tickAt 60001 105 2)"
    by (simp_all add: tickAt_def)
  then have all: "\<forall>e \<in> set ?es. keeps_candles e" by simp
  have em: "emitted (snd (run init ?es)) = [?c]" by (simp add: eval_defs)
  have refs: "historyRefs ?s = [0]" by (simp add: eval_defs)
  have g: "snd (getKlines ?s) = 1" "klines ?s = 0" by (simp_all add: eval_defs)
  note inst = history_buffer [OF refl, of ?es 0]
  from inst all have "history ?s = take MAX_KLINES (rev (emitted (snd (run init ?es))))"
    by blast
  with em have h: "history ?s = [?c]" by (simp add: MAX_KLINES_def del: run.simps)
  from inst have "\<forall>i c. i < length (historyRefs ?s) \<longrightarrow>
      history (callerSet (fst (getKlines ?s))
                 (arrays (fst (getKlines ?s)) ! snd (getKlines ?s) ! i) c) ! i = c"
    by blast
  with refs have w: "history (callerSet (fst (getKlines ?s))
                 (arrays (fst (getKlines ?s)) ! snd (getKlines ?s) ! 0)
                 (completeKline (newKline (Ms 7) NaN NaN))) ! 0 =
     completeKline (newKline (Ms 7) NaN NaN)"
    by (simp del: run.simps)
  from keep refs h em g w show ?thesis by (intro conjI)
qed

section \<open>C6: a failed save\<close>

lemma guarded_rejected: "saveKline_guarded s (Rejected e) a = saveKline_catch e"
  by (simp add: saveKline_guarded_def saveKline_try_def)

lemma suspended_minute:
  assumes "state_ok s" and "suspended s = Some a"
  shows "\<exists>c. a_currentMinute a = Ms c \<and>
             logStarted (a_currentMinute a) = ([Console (LogStarted c)], None)"
proof -
  from assms obtain k where k: "currentKline s = Some k"
    by (cases "currentKline s") (simp_all add: state_ok_def)
  with assms have al: "aligned (a_currentMinute a)"
    and gt: "t_gt (a_currentMinute a) (klineStartTime s)"
    by (simp_all add: state_ok_def)
  from gt obtain c where c: "a_currentMinute a = Ms c" using t_gt_Ms by blast
  with al have "logStarted (a_currentMinute a) = ([Console (LogStarted c)], None)"
    by (simp add: logStarted_aligned)
  with c show ?thesis by blast
qed

text \<open>
  C6, as the claim states it, fails for a failure that is not an \<^verbatim>\<open>Error\<close>. The
  \<^verbatim>\<open>catch\<close> clause prints only when \<^verbatim>\<open>error instanceof Error\<close> holds and the name
  is not \<^verbatim>\<open>ConditionalCheckFailedException\<close>: when the promise of \<^verbatim>\<open>saveKline\<close> is
  rejected with another value, nothing is printed about the failure (only the start of the
  next candle is), while for an \<^verbatim>\<open>Error\<close> named \<^verbatim>\<open>TimeoutError\<close> the error is printed.
\<close>

theorem save_failure_counterexample:
  "snd (step (fst (run init [tickAt 1 100 1, tickAt 60001 105 2]))
         (SaveSettled (Rejected NonError))) = [Console (LogStarted 60000)] \<and>
   snd (step (fst (run init [tickAt 1 100 1, tickAt 60001 105 2]))
         (SaveSettled (Rejected (JsError ''TimeoutError'')))) =
     [Console (ErrSaveFailed (JsError ''TimeoutError'')), Console (LogStarted 60000)]"
  by (simp add: eval_defs)

text \<open>
  C6, amended. In a state reached from the initial state, let an activation be suspended
  at the \<^verbatim>\<open>await\<close> of \<^verbatim>\<open>saveKline\<close> (a rollover is under way). However the save
  settles, \<^verbatim>\<open>processTickerUpdate\<close> finishes without throwing (its promise is not
  rejected) and leaves the same state as after a successful save: the completed candle is
  still at the head of the array, no object of the store has changed, the candle of the
  new minute is open with the values of the tick that caused the rollover, and the flag is
  cleared. A rejection with an \<^verbatim>\<open>Error\<close> named \<^verbatim>\<open>ConditionalCheckFailedException\<close>
  prints nothing about the failure; a rejection with an \<^verbatim>\<open>Error\<close> of any other name
  prints the error with \<^verbatim>\<open>console.error\<close>; a rejection with a value that is not an
  \<^verbatim>\<open>Error\<close> prints nothing about the failure.
\<close>

theorem save_failure_isolated:
  assumes "s = fst (run init es)" and "suspended s = Some a"
  shows "snd (snd (resumeTickerUpdate s r)) = None \<and>
         snd (step s (SaveSettled r)) = fst (snd (resumeTickerUpdate s r)) \<and>
         fst (resumeTickerUpdate s r) = fst (resumeTickerUpdate s Saved) \<and>
         objects (fst (resumeTickerUpdate s r)) = objects s \<and>
         historyRefs (fst (resumeTickerUpdate s r)) = historyRefs s \<and>
         history (fst (resumeTickerUpdate s r)) = history s \<and>
         hd (historyRefs (fst (resumeTickerUpdate s r))) = a_completeKline a \<and>
         a_completeKline a \<in> set (historyRefs (fst (resumeTickerUpdate s r))) \<and>
         currentKline (fst (resumeTickerUpdate s r)) =
           Some (newKline (a_currentMinute a) (a_price a) (a_size a)) \<and>
         klineStartTime (fst (resumeTickerUpdate s r)) = a_currentMinute a \<and>
         \<not> processingKline (fst (resumeTickerUpdate s r)) \<and>
         suspended (fst (resumeTickerUpdate s r)) = None \<and>
         (\<exists>c. a_currentMinute a = Ms c \<and>
           fst (snd (resumeTickerUpdate s (Rejected (JsError ''ConditionalCheckFailedException'')))) =
             [Console (LogStarted c)] \<and>
           (\<forall>n. n \<noteq> ''ConditionalCheckFailedException'' \<longrightarrow>
              fst (snd (resumeTickerUpdate s (Rejected (JsError n)))) =
                [Console (ErrSaveFailed (JsError n)), Console (LogStarted c)]) \<and>
           fst (snd (resumeTickerUpdate s (Rejected NonError))) = [Console (LogStarted c)])"
proof -
  have ok: "state_ok s" unfolding assms(1) using ok_init by (rule ok_run)
  from ok assms(2) obtain k where k: "currentKline s = Some k"
    by (cases "currentKline s") (simp_all add: state_ok_def)
  with ok assms(2) have hd: "historyRefs s \<noteq> []" "hd (historyRefs s) = a_completeKline a"
    by (simp_all add: state_ok_def)
  then have mem: "a_completeKline a \<in> set (historyRefs s)"
    using hd_in_set by metis
  from suspended_minute [OF ok assms(2)] obtain c where
    c: "a_currentMinute a = Ms c" "logStarted (a_currentMinute a) = ([Console (LogStarted c)], None)"
    by blast
  have state: "fst (resumeTickerUpdate s r) = fst (resumeTickerUpdate s Saved)"
    "objects (fst (resumeTickerUpdate s r)) = objects s"
    "historyRefs (fst (resumeTickerUpdate s r)) = historyRefs s"
    "currentKline (fst (resumeTickerUpdate s r)) =
       Some (newKline (a_currentMinute a) (a_price a) (a_size a))"
    "klineStartTime (fst (resumeTickerUpdate s r)) = a_currentMinute a"
    "\<not> processingKline (fst (resumeTickerUpdate s r))"
    "suspended (fst (resumeTickerUpdate s r)) = None"
    by (simp_all add: resume_some [OF assms(2)])
  have hist: "history (fst (resumeTickerUpdate s r)) = history s"
    by (simp add: resume_some [OF assms(2)] history_def historyRefs_def)
  have quiet: "snd (snd (resumeTickerUpdate s r)) = None"
    by (simp add: resume_some [OF assms(2)] c(2))
  then have st: "snd (step s (SaveSettled r)) = fst (snd (resumeTickerUpdate s r))"
    by (simp add: split_beta unhandled_def)
  have prints:
    "fst (snd (resumeTickerUpdate s (Rejected (JsError ''ConditionalCheckFailedException'')))) =
       [Console (LogStarted c)]"
    "\<forall>n. n \<noteq> ''ConditionalCheckFailedException'' \<longrightarrow>
       fst (snd (resumeTickerUpdate s (Rejected (JsError n)))) =
         [Console (ErrSaveFailed (JsError n)), Console (LogStarted c)]"
    "fst (snd (resumeTickerUpdate s (Rejected NonError))) = [Console (LogStarted c)]"
    by (simp_all add: resume_some [OF assms(2)] c(2) guarded_rejected saveKline_catch_def)
  from c(1) prints have ex: "\<exists>c. a_currentMinute a = Ms c \<and>
           fst (snd (resumeTickerUpdate s (Rejected (JsError ''ConditionalCheckFailedException'')))) =
             [Console (LogStarted c)] \<and>
           (\<forall>n. n \<noteq> ''ConditionalCheckFailedException'' \<longrightarrow>
              fst (snd (resumeTickerUpdate s (Rejected (JsError n)))) =
                [Console (ErrSaveFailed (JsError n)), Console (LogStarted c)]) \<and>
           fst (snd (resumeTickerUpdate s (Rejected NonError))) = [Console (LogStarted c)]"
    by blast
  have hd': "hd (historyRefs (fst (resumeTickerUpdate s r))) = a_completeKline a"
    "a_completeKline a \<in> set (historyRefs (fst (resumeTickerUpdate s r)))"
    using hd(2) mem by (simp_all only: state(3))
  from quiet st state(1,2,3) hist hd' state(4-7) ex show ?thesis by (intro conjI)
qed

theorem save_failure_isolated_witness:
  "suspended (fst (run init [tickAt 1 100 1, tickAt 60001 105 2])) =
     Some \<lparr> a_currentMinute = Ms 60000, a_price = Fin 105, a_size = Fin 2,
            a_completeKline = 0 \<rparr> \<and>
   currentKline (fst (resumeTickerUpdate (fst (run init [tickAt 1 100 1, tickAt 60001 105 2]))
                        (Rejected (JsError ''ProvisionedThroughputExceededException'')))) =
     Some (newKline (Ms 60000) (Fin 105) (Fin 2)) \<and>
   history (fst (resumeTickerUpdate (fst (run init [tickAt 1 100 1, tickAt 60001 105 2]))
                        (Rejected (JsError ''ProvisionedThroughputExceededException'')))) =
     [completeKline (newKline (Ms 0) (Fin 100) (Fin 1))] \<and>
   snd (snd (resumeTickerUpdate (fst (run init [tickAt 1 100 1, tickAt 60001 105 2]))
                        (Rejected (JsError ''ProvisionedThroughputExceededException'')))) = None \<and>
   fst (snd (resumeTickerUpdate (fst (run init [tickAt 1 100 1, tickAt 60001 105 2]))
                        (Rejected (JsError ''ProvisionedThroughputExceededException'')))) =
     [Console (ErrSaveFailed (JsError ''ProvisionedThroughputExceededException'')),
      Console (LogStarted 60000)]"
proof -
  let ?s = "fst (run init [tickAt 1 100 1, tickAt 60001 105 2])"
  let ?a = "\<lparr> a_currentMinute = Ms 60000, a_price = Fin 105, a_size = Fin 2,
            a_completeKline = 0 \<rparr>"
  let ?r = "Rejected (JsError ''ProvisionedThroughputExceededException'')"
  have susp: "suspended ?s = Some ?a" by (simp add: eval_defs)
  have hist: "history ?s = [completeKline (newKline (Ms 0) (Fin 100) (Fin 1))]"
    by (simp add: eval_defs)
  note inst = save_failure_isolated [OF refl susp, of ?r]
  from inst have cur: "currentKline (fst (resumeTickerUpdate ?s ?r)) =
      Some (newKline (a_currentMinute ?a) (a_price ?a) (a_size ?a))"
    and h: "history (fst (resumeTickerUpdate ?s ?r)) = history ?s"
    and q: "snd (snd (resumeTickerUpdate ?s ?r)) = None"
    by blast+
  from inst obtain c where c: "a_currentMinute ?a = Ms c"
    and all: "\<forall>n. n \<noteq> ''ConditionalCheckFailedException'' \<longrightarrow>
       fst (snd (resumeTickerUpdate ?s (Rejected (JsError n)))) =
         [Console (ErrSaveFailed (JsError n)), Console (LogStarted c)]"
    by blast
  from c have c6: "c = 60000" by simp
  from all have logged: "fst (snd (resumeTickerUpdate ?s ?r)) =
       [Console (ErrSaveFailed (JsError ''ProvisionedThroughputExceededException'')),
        Console (LogStarted 60000)]"
    unfolding c6 by (elim allE [where x = "''ProvisionedThroughputExceededException''"]) simp
  from cur have cur': "currentKline (fst (resumeTickerUpdate ?s ?r)) =
      Some (newKline (Ms 60000) (Fin 105) (Fin 2))"
    by (simp del: run.simps)
  from h hist have h': "history (fst (resumeTickerUpdate ?s ?r)) =
      [completeKline (newKline (Ms 0) (Fin 100) (Fin 1))]"
    by (simp only:)
  from susp cur' h' q logged show ?thesis by (intro conjI)
qed

section \<open>The rollover step\<close>

text \<open>
  In a consistent state with a candle open and no save awaited, a ticker message of a
  later minute that passes the filter: what \<^verbatim>\<open>processTickerUpdate\<close> does before the
  \<^verbatim>\<open>await\<close>, and after it.
\<close>

lemma roll_step:
  assumes ok: "state_ok s" and np: "\<not> processingKline s" and cur: "currentKline s = Some k"
    and adm: "\<not> t_le (getTime (time d)) (lastTickTime s)"
    and later: "t_gt (minuteOf (getTime (time d))) (klineStartTime s)"
  shows "\<exists>w. klineStartTime s = Ms w \<and>
           fst (snd (processTickerUpdate s d)) =
             Console (LogCompleting w) # Unshift (length (objects s)) #
               (if length (historyRefs s) < MAX_KLINES then [] else [Pop]) @
               [SaveKline (length (objects s)) (completeKline k)]"
    and "snd (snd (processTickerUpdate s d)) = None"
    and "emitted (fst (snd (processTickerUpdate s d))) = [completeKline k]"
    and "objects (fst (processTickerUpdate s d)) = objects s @ [completeKline k]"
    and "historyRefs (fst (processTickerUpdate s d)) =
           take MAX_KLINES (length (objects s) # historyRefs s)"
    and "history (fst (processTickerUpdate s d)) = take MAX_KLINES (completeKline k # history s)"
    and "hd (history (fst (processTickerUpdate s d))) = completeKline k"
    and "klineStartTime (fst (processTickerUpdate s d)) = klineStartTime s"
    and "currentKline (fst (processTickerUpdate s d)) = Some k"
    and "processingKline (fst (processTickerUpdate s d))"
    and "suspended (fst (processTickerUpdate s d)) =
           Some \<lparr> a_currentMinute = minuteOf (getTime (time d)), a_price = price d,
                  a_size = last_size d, a_completeKline = length (objects s) \<rparr>"
    and "openTime (completeKline k) = klineStartTime s"
proof -
  have kl: "klines s < length (arrays s)" using ok by (simp add: state_ok_def)
  have old: "\<forall>r \<in> set (historyRefs s). r < length (objects s)"
    using ok by (simp add: state_ok_def)
  from ok obtain w c where w: "klineStartTime s = Ms w" and c: "minuteOf (getTime (time d)) = Ms c"
    and eq: "processTickerUpdate s d =
             (s\<lparr>lastTickTime := getTime (time d), processingKline := True,
                objects := objects s @ [completeKline k],
                arrays := (arrays s)
                  [klines s := take MAX_KLINES (length (objects s) # historyRefs s)],
                suspended := Some \<lparr> a_currentMinute = Ms c, a_price = price d,
                                     a_size = last_size d,
                                     a_completeKline = length (objects s) \<rparr>\<rparr>,
              Console (LogCompleting w) # Unshift (length (objects s)) #
                (if length (historyRefs s) < MAX_KLINES then [] else [Pop]) @
                [SaveKline (length (objects s)) (completeKline k)],
              None)"
  proof (cases rule: ptu_cases [of s d])
    case drop
    with adm show ?thesis by simp
  next
    case first
    with cur show ?thesis by simp
  next
    case (guard k' a)
    with np show ?thesis by simp
  next
    case (roll k' w c)
    with cur that show ?thesis by simp
  next
    case (fold k')
    with later show ?thesis by simp
  qed
  show "\<exists>w. klineStartTime s = Ms w \<and>
           fst (snd (processTickerUpdate s d)) =
             Console (LogCompleting w) # Unshift (length (objects s)) #
               (if length (historyRefs s) < MAX_KLINES then [] else [Pop]) @
               [SaveKline (length (objects s)) (completeKline k)]"
    using w by (simp add: eq)
  show "snd (snd (processTickerUpdate s d)) = None" by (simp add: eq)
  show "emitted (fst (snd (processTickerUpdate s d))) = [completeKline k]"
    by (simp add: eq emitted_append)
  show "objects (fst (processTickerUpdate s d)) = objects s @ [completeKline k]"
    by (simp add: eq)
  show "historyRefs (fst (processTickerUpdate s d)) =
           take MAX_KLINES (length (objects s) # historyRefs s)"
    using kl by (simp add: eq)
  let ?os = "objects s @ [completeKline k]"
  have "map (\<lambda>r. ?os ! r) (take MAX_KLINES (length (objects s) # historyRefs s)) =
        take MAX_KLINES (map (\<lambda>r. ?os ! r) (length (objects s) # historyRefs s))"
    by (rule take_map [symmetric])
  also have "map (\<lambda>r. ?os ! r) (length (objects s) # historyRefs s) =
             completeKline k # map (\<lambda>r. ?os ! r) (historyRefs s)"
    by simp
  also have "map (\<lambda>r. ?os ! r) (historyRefs s) = history s"
    unfolding history_def using old by (rule deref_fresh)
  finally have m: "map (\<lambda>r. ?os ! r) (take MAX_KLINES (length (objects s) # historyRefs s)) =
        take MAX_KLINES (completeKline k # history s)" .
  show h: "history (fst (processTickerUpdate s d)) = take MAX_KLINES (completeKline k # history s)"
    using kl m by (simp add: eq history_def)
  show "hd (history (fst (processTickerUpdate s d))) = completeKline k"
    by (simp add: h MAX_KLINES_def)
  show "klineStartTime (fst (processTickerUpdate s d)) = klineStartTime s" by (simp add: eq)
  show "currentKline (fst (processTickerUpdate s d)) = Some k" using cur by (simp add: eq)
  show "processingKline (fst (processTickerUpdate s d))" by (simp add: eq)
  show "suspended (fst (processTickerUpdate s d)) =
           Some \<lparr> a_currentMinute = minuteOf (getTime (time d)), a_price = price d,
                  a_size = last_size d, a_completeKline = length (objects s) \<rparr>"
    using c by (simp add: eq)
  show "openTime (completeKline k) = klineStartTime s"
    using ok cur by (simp add: state_ok_def)
qed

lemma resume_after_roll:
  assumes ok: "state_ok s" and np: "\<not> processingKline s" and cur: "currentKline s = Some k"
    and adm: "\<not> t_le (getTime (time d)) (lastTickTime s)"
    and later: "t_gt (minuteOf (getTime (time d))) (klineStartTime s)"
  shows "currentKline (fst (resumeTickerUpdate (fst (processTickerUpdate s d)) r)) =
           Some (newKline (minuteOf (getTime (time d))) (price d) (last_size d))"
    and "klineStartTime (fst (resumeTickerUpdate (fst (processTickerUpdate s d)) r)) =
           minuteOf (getTime (time d))"
    and "lastTickTime (fst (resumeTickerUpdate (fst (processTickerUpdate s d)) r)) =
           getTime (time d)"
    and "\<not> processingKline (fst (resumeTickerUpdate (fst (processTickerUpdate s d)) r))"
    and "emitted (fst (snd (resumeTickerUpdate (fst (processTickerUpdate s d)) r))) = []"
    and "snd (snd (resumeTickerUpdate (fst (processTickerUpdate s d)) r)) = None"
    and "history (fst (resumeTickerUpdate (fst (processTickerUpdate s d)) r)) =
           history (fst (processTickerUpdate s d))"
proof -
  let ?s1 = "fst (processTickerUpdate s d)"
  let ?a = "\<lparr> a_currentMinute = minuteOf (getTime (time d)), a_price = price d,
              a_size = last_size d, a_completeKline = length (objects s) \<rparr>"
  note rs = roll_step [OF ok np cur adm later]
  have susp: "suspended ?s1 = Some ?a" by (rule rs(11))
  have ok1: "state_ok ?s1" using ok by (rule ok_ptu)
  from suspended_minute [OF ok1 susp] obtain c where
    c: "logStarted (a_currentMinute ?a) = ([Console (LogStarted c)], None)" by blast
  show "currentKline (fst (resumeTickerUpdate ?s1 r)) =
           Some (newKline (minuteOf (getTime (time d))) (price d) (last_size d))"
    by (simp add: resume_some [OF susp])
  show "klineStartTime (fst (resumeTickerUpdate ?s1 r)) = minuteOf (getTime (time d))"
    by (simp add: resume_some [OF susp])
  show "lastTickTime (fst (resumeTickerUpdate ?s1 r)) = getTime (time d)"
    using ptu_watermark [OF adm] by (simp add: resume_some [OF susp])
  show "\<not> processingKline (fst (resumeTickerUpdate ?s1 r))"
    by (simp add: resume_some [OF susp])
  show "emitted (fst (snd (resumeTickerUpdate ?s1 r))) = []"
    by (simp add: resume_some [OF susp] emitted_append)
  show "snd (snd (resumeTickerUpdate ?s1 r)) = None"
    using c by (simp add: resume_some [OF susp])
  show "history (fst (resumeTickerUpdate ?s1 r)) = history ?s1"
    by (simp add: resume_some [OF susp] history_def historyRefs_def)
qed

section \<open>C10: prices and sizes are not checked\<close>

text \<open>
  C10, as the claim states it, fails for one kind of tick: a tick that passes the
  watermark check while the save of the previous candle is awaited is not folded but
  dropped, whatever its price and size. Here the tick at 60002 passes the check (the
  watermark becomes 60002) and only \<^verbatim>\<open>Waiting for previous kline completion\<close> is
  printed; when the save has settled the candle of minute 60000 holds the tick at 60001
  only.
\<close>

theorem no_validation_counterexample:
  "step (fst (run init [tickAt 1 100 1, tickAt 60001 105 2])) (tickAt 60002 110 3) =
     ((fst (run init [tickAt 1 100 1, tickAt 60001 105 2]))\<lparr>lastTickTime := Ms 60002\<rparr>,
      [Console LogWaiting]) \<and>
   currentKline (fst (run init [tickAt 1 100 1, tickAt 60001 105 2, tickAt 60002 110 3,
                                SaveSettled Saved])) =
     Some \<lparr> symbol = ''BTC-USD'', interval = ''1m'', openTime = Ms 60000, closeTime = Ms 120000,
            open_price = Fin 105, high = Fin 105, low = Fin 105, close = Fin 105,
            volume = Fin 2, trades = 1 \<rparr>"
  by (simp add: eval_defs)

text \<open>
  C10, amended. In a state reached from the initial state, what \<^verbatim>\<open>processTickerUpdate\<close>
  does with a tick that passes the watermark check is decided by the time of the tick and
  the state, never by its price or size. The first tick opens a candle with its price and
  size as they are; a tick that is not of a later minute than the current candle is folded
  in with \<^verbatim>\<open>Math.max\<close>, \<^verbatim>\<open>Math.min\<close> and \<^verbatim>\<open>+=\<close> on them as they are; a tick of a
  later minute, when no save is awaited, puts a copy of the current candle with the values
  it has at the head of the array and hands it to \<^verbatim>\<open>saveKline\<close> and, once the save has
  settled, opens the next candle with its price and size as they are; while a save is
  awaited such a tick is dropped. So a candle in the array and handed to \<^verbatim>\<open>saveKline\<close>
  can hold \<^verbatim>\<open>NaN\<close> and values that are not positive: a first tick with an unparseable
  price and size, or with price \<open>-5\<close> and size \<open>-1\<close>, opens a candle with these values,
  and the first tick of the next minute exposes it.
\<close>

theorem no_price_size_validation:
  assumes reach: "s = fst (run init es)"
  shows
  "(\<not> t_le (getTime (time d)) (lastTickTime s) \<and> currentKline s = None \<longrightarrow>
      currentKline (fst (processTickerUpdate s d)) =
        Some (newKline (minuteOf (getTime (time d))) (price d) (last_size d))) \<and>
   (\<not> t_le (getTime (time d)) (lastTickTime s) \<and> currentKline s = Some k \<and>
    \<not> t_gt (minuteOf (getTime (time d))) (klineStartTime s) \<longrightarrow>
      currentKline (fst (processTickerUpdate s d)) =
        Some (k\<lparr>high := js_max (high k) (price d), low := js_min (low k) (price d),
                close := price d, volume := js_add (volume k) (last_size d),
                trades := trades k + 1\<rparr>)) \<and>
   (\<not> t_le (getTime (time d)) (lastTickTime s) \<and> currentKline s = Some k \<and>
    t_gt (minuteOf (getTime (time d))) (klineStartTime s) \<and> \<not> processingKline s \<longrightarrow>
      emitted (fst (snd (processTickerUpdate s d))) = [completeKline k] \<and>
      hd (history (fst (processTickerUpdate s d))) = completeKline k \<and>
      open_price (completeKline k) = open_price k \<and> high (completeKline k) = high k \<and>
      low (completeKline k) = low k \<and> close (completeKline k) = close k \<and>
      volume (completeKline k) = volume k \<and>
      currentKline (fst (resumeTickerUpdate (fst (processTickerUpdate s d)) r)) =
        Some (newKline (minuteOf (getTime (time d))) (price d) (last_size d))) \<and>
   (\<not> t_le (getTime (time d)) (lastTickTime s) \<and> currentKline s = Some k \<and>
    t_gt (minuteOf (getTime (time d))) (klineStartTime s) \<and> processingKline s \<longrightarrow>
      processTickerUpdate s d =
        (s\<lparr>lastTickTime := getTime (time d)\<rparr>, [Console LogWaiting], None)) \<and>
   emitted (snd (run init [WsMessage (TickerMsg \<lparr>time = Some 1, price = NaN, last_size = NaN\<rparr>),
                           tickAt 60001 100 1])) =
     [\<lparr> symbol = ''BTC-USD'', interval = ''1m'', openTime = Ms 0, closeTime = Ms 60000,
        open_price = NaN, high = NaN, low = NaN, close = NaN, volume = NaN, trades = 1,
        exchange = ''COINBASE'' \<rparr>] \<and>
   history (fst (run init [WsMessage (TickerMsg \<lparr>time = Some 1, price = NaN, last_size = NaN\<rparr>),
                           tickAt 60001 100 1])) =
     [\<lparr> symbol = ''BTC-USD'', interval = ''1m'', openTime = Ms 0, closeTime = Ms 60000,
        open_price = NaN, high = NaN, low = NaN, close = NaN, volume = NaN, trades = 1,
        exchange = ''COINBASE'' \<rparr>] \<and>
   emitted (snd (run init [tickAt 1 (- 5) (- 1), tickAt 60001 100 1])) =
     [\<lparr> symbol = ''BTC-USD'', interval = ''1m'', openTime = Ms 0, closeTime = Ms 60000,
        open_price = Fin (- 5), high = Fin (- 5), low = Fin (- 5), close = Fin (- 5),
        volume = Fin (- 1), trades = 1, exchange = ''COINBASE'' \<rparr>] \<and>
   history (fst (run init [tickAt 1 (- 5) (- 1), tickAt 60001 100 1])) =
     [\<lparr> symbol = ''BTC-USD'', interval = ''1m'', openTime = Ms 0, closeTime = Ms 60000,
        open_price = Fin (- 5), high = Fin (- 5), low = Fin (- 5), close = Fin (- 5),
        volume = Fin (- 1), trades = 1, exchange = ''COINBASE'' \<rparr>]"
proof -
  have ok: "state_ok s" unfolding reach using ok_init by (rule ok_run)
  have first: "currentKline (fst (processTickerUpdate s d)) =
        Some (newKline (minuteOf (getTime (time d))) (price d) (last_size d))"
    if h: "\<not> t_le (getTime (time d)) (lastTickTime s)" "currentKline s = None"
  proof -
    from ok h(2) have np: "\<not> processingKline s" by (simp add: state_ok_def)
    show ?thesis by (simp add: ptu_first [OF h np])
  qed
  have fold: "currentKline (fst (processTickerUpdate s d)) =
        Some (k\<lparr>high := js_max (high k) (price d), low := js_min (low k) (price d),
                close := price d, volume := js_add (volume k) (last_size d),
                trades := trades k + 1\<rparr>)"
    if "\<not> t_le (getTime (time d)) (lastTickTime s)" "currentKline s = Some k"
      "\<not> t_gt (minuteOf (getTime (time d))) (klineStartTime s)"
    using that by (simp add: ptu_fold updateKline_def)
  have roll: "emitted (fst (snd (processTickerUpdate s d))) = [completeKline k] \<and>
      hd (history (fst (processTickerUpdate s d))) = completeKline k \<and>
      open_price (completeKline k) = open_price k \<and> high (completeKline k) = high k \<and>
      low (completeKline k) = low k \<and> close (completeKline k) = close k \<and>
      volume (completeKline k) = volume k \<and>
      currentKline (fst (resumeTickerUpdate (fst (processTickerUpdate s d)) r)) =
        Some (newKline (minuteOf (getTime (time d))) (price d) (last_size d))"
    if h: "\<not> t_le (getTime (time d)) (lastTickTime s)" "currentKline s = Some k"
      "t_gt (minuteOf (getTime (time d))) (klineStartTime s)" "\<not> processingKline s"
    using roll_step(3,7) [OF ok h(4) h(2) h(1) h(3)]
      resume_after_roll(1) [OF ok h(4) h(2) h(1) h(3), of r]
    by simp
  have guard: "processTickerUpdate s d =
        (s\<lparr>lastTickTime := getTime (time d)\<rparr>, [Console LogWaiting], None)"
    if "\<not> t_le (getTime (time d)) (lastTickTime s)" "currentKline s = Some k"
      "t_gt (minuteOf (getTime (time d))) (klineStartTime s)" "processingKline s"
    using that by (simp add: ptu_guard)
  have nan: "emitted (snd (run init [WsMessage (TickerMsg \<lparr>time = Some 1, price = NaN, last_size = NaN\<rparr>),
                           tickAt 60001 100 1])) =
     [\<lparr> symbol = ''BTC-USD'', interval = ''1m'', openTime = Ms 0, closeTime = Ms 60000,
        open_price = NaN, high = NaN, low = NaN, close = NaN, volume = NaN, trades = 1,
        exchange = ''COINBASE'' \<rparr>]"
    "history (fst (run init [WsMessage (TickerMsg \<lparr>time = Some 1, price = NaN, last_size = NaN\<rparr>),
                           tickAt 60001 100 1])) =
     [\<lparr> symbol = ''BTC-USD'', interval = ''1m'', openTime = Ms 0, closeTime = Ms 60000,
        open_price = NaN, high = NaN, low = NaN, close = NaN, volume = NaN, trades = 1,
        exchange = ''COINBASE'' \<rparr>]"
    by (simp_all add: eval_defs)
  have neg: "emitted (snd (run init [tickAt 1 (- 5) (- 1), tickAt 60001 100 1])) =
     [\<lparr> symbol = ''BTC-USD'', interval = ''1m'', openTime = Ms 0, closeTime = Ms 60000,
        open_price = Fin (- 5), high = Fin (- 5), low = Fin (- 5), close = Fin (- 5),
        volume = Fin (- 1), trades = 1, exchange = ''COINBASE'' \<rparr>]"
    "history (fst (run init [tickAt 1 (- 5) (- 1), tickAt 60001 100 1])) =
     [\<lparr> symbol = ''BTC-USD'', interval = ''1m'', openTime = Ms 0, closeTime = Ms 60000,
        open_price = Fin (- 5), high = Fin (- 5), low = Fin (- 5), close = Fin (- 5),
        volume = Fin (- 1), trades = 1, exchange = ''COINBASE'' \<rparr>]"
    by (simp_all add: eval_defs)
  from first have P1: "\<not> t_le (getTime (time d)) (lastTickTime s) \<and> currentKline s = None \<longrightarrow>
      currentKline (fst (processTickerUpdate s d)) =
        Some (newKline (minuteOf (getTime (time d))) (price d) (last_size d))"
    by blast
  from fold have P2: "\<not> t_le (getTime (time d)) (lastTickTime s) \<and> currentKline s = Some k \<and>
    \<not> t_gt (minuteOf (getTime (time d))) (klineStartTime s) \<longrightarrow>
      currentKline (fst (processTickerUpdate s d)) =
        Some (k\<lparr>high := js_max (high k) (price d), low := js_min (low k) (price d),
                close := price d, volume := js_add (volume k) (last_size d),
                trades := trades k + 1\<rparr>)"
    by blast
  from roll have P3: "\<not> t_le (getTime (time d)) (lastTickTime s) \<and> currentKline s = Some k \<and>
    t_gt (minuteOf (getTime (time d))) (klineStartTime s) \<and> \<not> processingKline s \<longrightarrow>
      emitted (fst (snd (processTickerUpdate s d))) = [completeKline k] \<and>
      hd (history (fst (processTickerUpdate s d))) = completeKline k \<and>
      open_price (completeKline k) = open_price k \<and> high (completeKline k) = high k \<and>
      low (completeKline k) = low k \<and> close (completeKline k) = close k \<and>
      volume (completeKline k) = volume k \<and>
      currentKline (fst (resumeTickerUpdate (fst (processTickerUpdate s d)) r)) =
        Some (newKline (minuteOf (getTime (time d))) (price d) (last_size d))"
    by blast
  from guard have P4: "\<not> t_le (getTime (time d)) (lastTickTime s) \<and> currentKline s = Some k \<and>
    t_gt (minuteOf (getTime (time d))) (klineStartTime s) \<and> processingKline s \<longrightarrow>
      processTickerUpdate s d =
        (s\<lparr>lastTickTime := getTime (time d)\<rparr>, [Console LogWaiting], None)"
    by blast
  from P1 P2 P3 P4 nan neg show ?thesis by (intro conjI)
qed

theorem no_price_size_validation_witness:
  "\<not> t_le (getTime (Some 2)) (lastTickTime (fst (run init [tickAt 1 100 1]))) \<and>
   \<not> t_gt (minuteOf (getTime (Some 2))) (klineStartTime (fst (run init [tickAt 1 100 1]))) \<and>
   currentKline (fst (run init [tickAt 1 100 1])) = Some (newKline (Ms 0) (Fin 100) (Fin 1)) \<and>
   currentKline (fst (processTickerUpdate (fst (run init [tickAt 1 100 1]))
                        \<lparr>time = Some 2, price = NaN, last_size = Fin (- 3)\<rparr>)) =
     Some \<lparr> symbol = ''BTC-USD'', interval = ''1m'', openTime = Ms 0, closeTime = Ms 60000,
            open_price = Fin 100, high = NaN, low = NaN, close = NaN,
            volume = Fin (- 2), trades = 2 \<rparr>"
proof -
  let ?s = "fst (run init [tickAt 1 100 1])"
  let ?d = "\<lparr>time = Some 2, price = NaN, last_size = Fin (- 3)\<rparr>"
  have s: "\<not> t_le (getTime (Some 2)) (lastTickTime ?s)"
    "\<not> t_gt (minuteOf (getTime (Some 2))) (klineStartTime ?s)"
    "currentKline ?s = Some (newKline (Ms 0) (Fin 100) (Fin 1))"
    by (simp_all add: eval_defs)
  from no_price_size_validation [OF refl, of ?d "[tickAt 1 100 1]" "newKline (Ms 0) (Fin 100) (Fin 1)"] s
  have "currentKline (fst (processTickerUpdate ?s ?d)) =
        Some ((newKline (Ms 0) (Fin 100) (Fin 1))
                \<lparr>high := js_max (high (newKline (Ms 0) (Fin 100) (Fin 1))) (price ?d),
                  low := js_min (low (newKline (Ms 0) (Fin 100) (Fin 1))) (price ?d),
                  close := price ?d,
                  volume := js_add (volume (newKline (Ms 0) (Fin 100) (Fin 1))) (last_size ?d),
                  trades := trades (newKline (Ms 0) (Fin 100) (Fin 1)) + 1\<rparr>)"
    by (simp del: run.simps getTime.simps)
  then have "currentKline (fst (processTickerUpdate ?s ?d)) =
     Some \<lparr> symbol = ''BTC-USD'', interval = ''1m'', openTime = Ms 0, closeTime = Ms 60000,
            open_price = Fin 100, high = NaN, low = NaN, close = NaN,
            volume = Fin (- 2), trades = 2 \<rparr>"
    by (simp add: newKline_def js_max_def js_min_def del: run.simps)
  with s show ?thesis by (simp del: run.simps getTime.simps)
qed

section \<open>C9: the size of a tick\<close>








section \<open>C3: the invariants of a candle\<close>




section \<open>C4: the ticks of one minute\<close>

lemma foldTicks_fields:
  "openTime (foldTicks k ds) = openTime k"
  "closeTime (foldTicks k ds) = closeTime k"
  "open_price (foldTicks k ds) = open_price k"
  "close (foldTicks k ds) = (if ds = [] then close k else price (last ds))"
  "high (foldTicks k ds) = foldl js_max (high k) (map price ds)"
  "low (foldTicks k ds) = foldl js_min (low k) (map price ds)"
  "volume (foldTicks k ds) = foldl js_add (volume k) (map last_size ds)"
  "trades (foldTicks k ds) = trades k + length ds"
  by (induction ds arbitrary: k; simp)+

lemma run_ticks_fold:
  "currentKline s = Some k \<Longrightarrow> klineStartTime s = Ms w \<Longrightarrow> lastTickTime s = Ms l \<Longrightarrow>
   ticks_in w l ds \<Longrightarrow>
   currentKline (fst (run s (tickers ds))) = Some (foldTicks k ds) \<and>
   snd (run s (tickers ds)) = [] \<and>
   klineStartTime (fst (run s (tickers ds))) = Ms w \<and>
   history (fst (run s (tickers ds))) = history s"
proof (induction ds arbitrary: s k l)
  case Nil
  then show ?case by (simp add: tickers_def)
next
  case (Cons d ds)
  from Cons.prems(4) obtain u where u: "getTime (time d) = Ms u" "l < u" "bucket u = w"
    and rest: "ticks_in w u ds"
    by (cases "getTime (time d)") simp_all
  let ?s1 = "s\<lparr>lastTickTime := getTime (time d),
               currentKline := Some (updateKline k (price d) (last_size d))\<rparr>"
  have adm: "\<not> t_le (getTime (time d)) (lastTickTime s)"
    using u Cons.prems(3) by simp
  have same: "\<not> t_gt (minuteOf (getTime (time d))) (klineStartTime s)"
    using u Cons.prems(2) by simp
  have st: "step s (WsMessage (TickerMsg d)) = (?s1, [])"
    using ptu_fold [OF adm Cons.prems(1) same] by (simp add: handleMessage_def unhandled_def)
  have k1: "currentKline ?s1 = Some (updateKline k (price d) (last_size d))" by simp
  have w1: "klineStartTime ?s1 = Ms w" using Cons.prems(2) by simp
  have l1: "lastTickTime ?s1 = Ms u" using u by simp
  from Cons.IH [OF k1 w1 l1 rest] st show ?case
    by (simp add: tickers_def del: step.simps)
qed

lemma foldl_js_max_greatest:
  "p \<noteq> NaN \<Longrightarrow> \<forall>q \<in> set ps. q \<noteq> NaN \<Longrightarrow>
   foldl js_max p ps \<in> set (p # ps) \<and> (\<forall>q \<in> set (p # ps). js_le q (foldl js_max p ps))"
proof (induction ps arbitrary: p)
  case Nil
  then show ?case by (simp add: js_le_refl)
next
  case (Cons a ps)
  then have a: "a \<noteq> NaN" by simp
  have m: "js_max p a \<noteq> NaN" "js_max p a = p \<or> js_max p a = a"
    using Cons.prems(1) a by (auto simp add: js_max_def)
  from Cons.prems have rest: "\<forall>q \<in> set ps. q \<noteq> NaN" by simp
  note ih = Cons.IH [OF m(1) rest]
  from ih have top: "js_le (js_max p a) (foldl js_max (js_max p a) ps)" by simp
  from js_max_upper [OF Cons.prems(1) a] top
  have "js_le p (foldl js_max (js_max p a) ps)" "js_le a (foldl js_max (js_max p a) ps)"
    using js_le_trans by blast+
  with ih m(2) show ?case by auto
qed

lemma foldl_js_min_least:
  "p \<noteq> NaN \<Longrightarrow> \<forall>q \<in> set ps. q \<noteq> NaN \<Longrightarrow>
   foldl js_min p ps \<in> set (p # ps) \<and> (\<forall>q \<in> set (p # ps). js_le (foldl js_min p ps) q)"
proof (induction ps arbitrary: p)
  case Nil
  then show ?case by (simp add: js_le_refl)
next
  case (Cons a ps)
  then have a: "a \<noteq> NaN" by simp
  have m: "js_min p a \<noteq> NaN" "js_min p a = p \<or> js_min p a = a"
    using Cons.prems(1) a by (auto simp add: js_min_def)
  from Cons.prems have rest: "\<forall>q \<in> set ps. q \<noteq> NaN" by simp
  note ih = Cons.IH [OF m(1) rest]
  from ih have bot: "js_le (foldl js_min (js_min p a) ps) (js_min p a)" by simp
  from js_min_lower [OF Cons.prems(1) a] bot
  have "js_le (foldl js_min (js_min p a) ps) p" "js_le (foldl js_min (js_min p a) ps) a"
    using js_le_trans by blast+
  with ih m(2) show ?case by auto
qed

lemma open_then_fold:
  assumes ok: "state_ok s" and t0: "getTime (time d0) = Ms t0"
    and adm: "\<not> t_le (getTime (time d0)) (lastTickTime s)" and none: "currentKline s = None"
    and ds: "ticks_in (bucket t0) t0 ds"
  shows "currentKline (fst (run s (tickers (d0 # ds)))) =
           Some (foldTicks (newKline (Ms (bucket t0)) (price d0) (last_size d0)) ds) \<and>
         emitted (snd (run s (tickers (d0 # ds)))) = []"
proof -
  from ok none have np: "\<not> processingKline s" by (simp add: state_ok_def)
  let ?s1 = "fst (step s (WsMessage (TickerMsg d0)))"
  have s1: "currentKline ?s1 = Some (newKline (Ms (bucket t0)) (price d0) (last_size d0))"
    "klineStartTime ?s1 = Ms (bucket t0)" "lastTickTime ?s1 = Ms t0"
    using t0 by (simp_all add: handleMessage_def split_beta ptu_first [OF adm none np])
  have e1: "emitted (snd (step s (WsMessage (TickerMsg d0)))) = []"
    by (simp add: handleMessage_def split_beta ptu_first [OF adm none np] emitted_append)
  from run_ticks_fold [OF s1 ds] e1 show ?thesis
    by (simp add: tickers_def split_beta emitted_append del: step.simps)
qed

lemma roll_then_fold:
  assumes ok: "state_ok s" and t0: "getTime (time d0) = Ms t0"
    and adm: "\<not> t_le (getTime (time d0)) (lastTickTime s)" and cur: "currentKline s = Some k0"
    and later: "t_gt (minuteOf (getTime (time d0))) (klineStartTime s)"
    and np: "\<not> processingKline s" and ds: "ticks_in (bucket t0) t0 ds"
  shows "currentKline (fst (run s (WsMessage (TickerMsg d0) # SaveSettled r # tickers ds))) =
           Some (foldTicks (newKline (Ms (bucket t0)) (price d0) (last_size d0)) ds) \<and>
         emitted (snd (run s (WsMessage (TickerMsg d0) # SaveSettled r # tickers ds))) =
           [completeKline k0]"
proof -
  let ?s1 = "fst (step s (WsMessage (TickerMsg d0)))"
  let ?s2 = "fst (step ?s1 (SaveSettled r))"
  have p: "?s1 = fst (processTickerUpdate s d0)" by (simp add: handleMessage_def split_beta)
  have e1: "emitted (snd (step s (WsMessage (TickerMsg d0)))) = [completeKline k0]"
    using roll_step(3) [OF ok np cur adm later]
    by (simp add: handleMessage_def split_beta emitted_append)
  have e2: "emitted (snd (step ?s1 (SaveSettled r))) = []"
    using quiet_resume [of ?s1 r] by simp
  note ra = resume_after_roll [OF ok np cur adm later, of r]
  have s2: "currentKline ?s2 = Some (newKline (Ms (bucket t0)) (price d0) (last_size d0))"
    "klineStartTime ?s2 = Ms (bucket t0)" "lastTickTime ?s2 = Ms t0"
    using ra(1,2,3) t0 by (simp_all add: p split_beta del: step.simps(7))
  from run_ticks_fold [OF s2 ds] e1 e2 show ?thesis
    by (simp add: split_beta emitted_append del: step.simps)
qed

text \<open>
  C4, as the claim states it, fails twice. From the initial state the watermark is 0, so
  the tick at \<open>t0 = 0\<close> does not pass the filter, and the candle emitted at \<open>t2\<close> holds
  the tick at \<open>t1\<close> only. And a tick that arrives while the save of the previous candle
  is awaited is dropped: of two ticks of the minute 60000 that pass the filter (the
  watermark ends at 60002), the candle holds the first only.
\<close>

theorem within_window_counterexample:
  "emitted (snd (run init [tickAt 0 100 1, tickAt 30000 105 2, tickAt 60000 95 1])) =
     [\<lparr> symbol = ''BTC-USD'', interval = ''1m'', openTime = Ms 0, closeTime = Ms 60000,
        open_price = Fin 105, high = Fin 105, low = Fin 105, close = Fin 105,
        volume = Fin 2, trades = 1, exchange = ''COINBASE'' \<rparr>] \<and>
   currentKline (fst (run init [tickAt 1 100 1, tickAt 60001 105 2, tickAt 60002 110 3,
                                SaveSettled Saved])) =
     Some \<lparr> symbol = ''BTC-USD'', interval = ''1m'', openTime = Ms 60000, closeTime = Ms 120000,
            open_price = Fin 105, high = Fin 105, low = Fin 105, close = Fin 105,
            volume = Fin 2, trades = 1 \<rparr> \<and>
   lastTickTime (fst (run init [tickAt 1 100 1, tickAt 60001 105 2, tickAt 60002 110 3,
                                SaveSettled Saved])) = Ms 60002"
  by (simp add: eval_defs)

text \<open>
  C4, amended. In a state reached from the initial state, take ticks of one minute whose
  times parse and increase, the first of which opens the candle of that minute: as the
  first tick ever, or as the tick that completes the previous candle while no save is
  awaited, the others arriving once the candle is open. The candle then has the price of
  the first tick as open and that of the last as close, \<^verbatim>\<open>Math.max\<close> and \<^verbatim>\<open>Math.min\<close>
  over their prices as high and low (the greatest and the least of the prices when none is
  \<^verbatim>\<open>NaN\<close>), their sizes added with \<^verbatim>\<open>+\<close> one after the other, from the first, as
  volume and their number as trades, and nothing is emitted while they are folded. Ticks
  at 1 (price 100, size 1), 30000 (105, 2) and 60000 (95, 1) from the initial state emit
  exactly one candle, with open 100, high 105, low 100, close 105, volume 3, trades 2,
  openTime 0 and closeTime 60000. With the first tick at 0 instead, that tick does not
  pass the filter, and the one candle emitted has open, high, low and close 105, volume 2
  and trades 1.
\<close>

theorem within_window:
  assumes reach: "s = fst (run init es)" and t0: "getTime (time d0) = Ms t0"
    and tin: "ticks_in (bucket t0) t0 ds"
  shows
   "(\<not> t_le (getTime (time d0)) (lastTickTime s) \<and> currentKline s = None \<longrightarrow>
       currentKline (fst (run s (tickers (d0 # ds)))) =
         Some (foldTicks (newKline (Ms (bucket t0)) (price d0) (last_size d0)) ds) \<and>
       emitted (snd (run s (tickers (d0 # ds)))) = []) \<and>
    (\<not> t_le (getTime (time d0)) (lastTickTime s) \<and> currentKline s = Some k0 \<and>
     t_gt (minuteOf (getTime (time d0))) (klineStartTime s) \<and> \<not> processingKline s \<longrightarrow>
       currentKline (fst (run s (WsMessage (TickerMsg d0) # SaveSettled r # tickers ds))) =
         Some (foldTicks (newKline (Ms (bucket t0)) (price d0) (last_size d0)) ds) \<and>
       emitted (snd (run s (WsMessage (TickerMsg d0) # SaveSettled r # tickers ds))) =
         [completeKline k0]) \<and>
    open_price (foldTicks (newKline w (price d0) (last_size d0)) ds) = price d0 \<and>
    close (foldTicks (newKline w (price d0) (last_size d0)) ds) = price (last (d0 # ds)) \<and>
    high (foldTicks (newKline w (price d0) (last_size d0)) ds) =
      foldl js_max (price d0) (map price ds) \<and>
    low (foldTicks (newKline w (price d0) (last_size d0)) ds) =
      foldl js_min (price d0) (map price ds) \<and>
    volume (foldTicks (newKline w (price d0) (last_size d0)) ds) =
      foldl js_add (last_size d0) (map last_size ds) \<and>
    trades (foldTicks (newKline w (price d0) (last_size d0)) ds) = length (d0 # ds) \<and>
    ((\<forall>d \<in> set (d0 # ds). price d \<noteq> NaN) \<longrightarrow>
       high (foldTicks (newKline w (price d0) (last_size d0)) ds) \<in> price ` set (d0 # ds) \<and>
       low (foldTicks (newKline w (price d0) (last_size d0)) ds) \<in> price ` set (d0 # ds) \<and>
       (\<forall>d \<in> set (d0 # ds).
          js_le (price d) (high (foldTicks (newKline w (price d0) (last_size d0)) ds)) \<and>
          js_le (low (foldTicks (newKline w (price d0) (last_size d0)) ds)) (price d))) \<and>
    emitted (snd (run init [tickAt 1 100 1, tickAt 30000 105 2, tickAt 60000 95 1])) =
      [\<lparr> symbol = ''BTC-USD'', interval = ''1m'', openTime = Ms 0, closeTime = Ms 60000,
         open_price = Fin 100, high = Fin 105, low = Fin 100, close = Fin 105,
         volume = Fin 3, trades = 2, exchange = ''COINBASE'' \<rparr>] \<and>
    step init (tickAt 0 100 1) = (init, []) \<and>
    emitted (snd (run init [tickAt 0 100 1, tickAt 30000 105 2, tickAt 60000 95 1])) =
      [\<lparr> symbol = ''BTC-USD'', interval = ''1m'', openTime = Ms 0, closeTime = Ms 60000,
         open_price = Fin 105, high = Fin 105, low = Fin 105, close = Fin 105,
         volume = Fin 2, trades = 1, exchange = ''COINBASE'' \<rparr>]"
proof -
  let ?k = "foldTicks (newKline w (price d0) (last_size d0)) ds"
  have ok: "state_ok s" unfolding reach using ok_init by (rule ok_run)
  have A: "currentKline (fst (run s (tickers (d0 # ds)))) =
         Some (foldTicks (newKline (Ms (bucket t0)) (price d0) (last_size d0)) ds) \<and>
       emitted (snd (run s (tickers (d0 # ds)))) = []"
    if "\<not> t_le (getTime (time d0)) (lastTickTime s)" "currentKline s = None"
    using ok t0 that tin by (rule open_then_fold)
  have B: "currentKline (fst (run s (WsMessage (TickerMsg d0) # SaveSettled r # tickers ds))) =
         Some (foldTicks (newKline (Ms (bucket t0)) (price d0) (last_size d0)) ds) \<and>
       emitted (snd (run s (WsMessage (TickerMsg d0) # SaveSettled r # tickers ds))) =
         [completeKline k0]"
    if "\<not> t_le (getTime (time d0)) (lastTickTime s)" "currentKline s = Some k0"
      "t_gt (minuteOf (getTime (time d0))) (klineStartTime s)" "\<not> processingKline s"
    using ok t0 that tin by (rule roll_then_fold)
  have C: "open_price ?k = price d0" "close ?k = price (last (d0 # ds))"
    "high ?k = foldl js_max (price d0) (map price ds)"
    "low ?k = foldl js_min (price d0) (map price ds)"
    "volume ?k = foldl js_add (last_size d0) (map last_size ds)"
    "trades ?k = length (d0 # ds)"
    by (simp_all add: foldTicks_fields)
  have D: "high ?k \<in> price ` set (d0 # ds) \<and> low ?k \<in> price ` set (d0 # ds) \<and>
       (\<forall>d \<in> set (d0 # ds). js_le (price d) (high ?k) \<and> js_le (low ?k) (price d))"
    if num: "\<forall>d \<in> set (d0 # ds). price d \<noteq> NaN"
  proof -
    from num have p: "price d0 \<noteq> NaN" and ps: "\<forall>q \<in> set (map price ds). q \<noteq> NaN"
      by simp_all
    from foldl_js_max_greatest [OF p ps] foldl_js_min_least [OF p ps] show ?thesis
      by (simp only: C(3) C(4)) (simp add: image_iff)
  qed
  have F: "emitted (snd (run init [tickAt 1 100 1, tickAt 30000 105 2, tickAt 60000 95 1])) =
      [\<lparr> symbol = ''BTC-USD'', interval = ''1m'', openTime = Ms 0, closeTime = Ms 60000,
         open_price = Fin 100, high = Fin 105, low = Fin 100, close = Fin 105,
         volume = Fin 3, trades = 2, exchange = ''COINBASE'' \<rparr>]"
    by (simp add: eval_defs)
  have F0: "step init (tickAt 0 100 1) = (init, [])"
    by (simp add: eval_defs)
  have F1: "emitted (snd (run init [tickAt 0 100 1, tickAt 30000 105 2, tickAt 60000 95 1])) =
      [\<lparr> symbol = ''BTC-USD'', interval = ''1m'', openTime = Ms 0, closeTime = Ms 60000,
         open_price = Fin 105, high = Fin 105, low = Fin 105, close = Fin 105,
         volume = Fin 2, trades = 1, exchange = ''COINBASE'' \<rparr>]"
    by (simp add: eval_defs)
  from A have PA:
    "\<not> t_le (getTime (time d0)) (lastTickTime s) \<and> currentKline s = None \<longrightarrow>
       currentKline (fst (run s (tickers (d0 # ds)))) =
         Some (foldTicks (newKline (Ms (bucket t0)) (price d0) (last_size d0)) ds) \<and>
       emitted (snd (run s (tickers (d0 # ds)))) = []"
    by (simp del: run.simps)
  from B have PB:
    "\<not> t_le (getTime (time d0)) (lastTickTime s) \<and> currentKline s = Some k0 \<and>
     t_gt (minuteOf (getTime (time d0))) (klineStartTime s) \<and> \<not> processingKline s \<longrightarrow>
       currentKline (fst (run s (WsMessage (TickerMsg d0) # SaveSettled r # tickers ds))) =
         Some (foldTicks (newKline (Ms (bucket t0)) (price d0) (last_size d0)) ds) \<and>
       emitted (snd (run s (WsMessage (TickerMsg d0) # SaveSettled r # tickers ds))) =
         [completeKline k0]"
    by (simp del: run.simps)
  from D have PD:
    "(\<forall>d \<in> set (d0 # ds). price d \<noteq> NaN) \<longrightarrow>
       high ?k \<in> price ` set (d0 # ds) \<and> low ?k \<in> price ` set (d0 # ds) \<and>
       (\<forall>d \<in> set (d0 # ds). js_le (price d) (high ?k) \<and> js_le (low ?k) (price d))"
    by (rule impI)
  from PA PB C PD F F0 F1 show ?thesis by (intro conjI)
qed

theorem within_window_witness:
  "getTime (Some 1) = Ms 1 \<and>
   ticks_in (bucket 1) 1 [\<lparr>time = Some 30000, price = Fin 105, last_size = Fin 2\<rparr>] \<and>
   \<not> t_le (getTime (Some 1)) (lastTickTime init) \<and> currentKline init = None \<and>
   currentKline (fst (run init (tickers [\<lparr>time = Some 1, price = Fin 100, last_size = Fin 1\<rparr>,
                                         \<lparr>time = Some 30000, price = Fin 105, last_size = Fin 2\<rparr>]))) =
     Some \<lparr> symbol = ''BTC-USD'', interval = ''1m'', openTime = Ms 0, closeTime = Ms 60000,
            open_price = Fin 100, high = Fin 105, low = Fin 100, close = Fin 105,
            volume = Fin 3, trades = 2 \<rparr> \<and>
   emitted (snd (run init (tickers [\<lparr>time = Some 1, price = Fin 100, last_size = Fin 1\<rparr>,
                                    \<lparr>time = Some 30000, price = Fin 105, last_size = Fin 2\<rparr>]))) = []"
proof -
  let ?d0 = "\<lparr>time = Some 1, price = Fin 100, last_size = Fin 1\<rparr>"
  let ?d1 = "\<lparr>time = Some 30000, price = Fin 105, last_size = Fin 2\<rparr>"
  have g: "getTime (time ?d0) = Ms 1" by (simp add: MAX_TIME_def)
  have tin: "ticks_in (bucket 1) 1 [?d1]" by (simp add: bucket_def MAX_TIME_def)
  have pre: "\<not> t_le (getTime (time ?d0)) (lastTickTime init)" "currentKline init = None"
    by (simp_all add: init_def MAX_TIME_def)
  have val: "foldTicks (newKline (Ms (bucket 1)) (price ?d0) (last_size ?d0)) [?d1] =
     \<lparr> symbol = ''BTC-USD'', interval = ''1m'', openTime = Ms 0, closeTime = Ms 60000,
       open_price = Fin 100, high = Fin 105, low = Fin 100, close = Fin 105,
       volume = Fin 3, trades = 2 \<rparr>"
    by (simp add: bucket_def newKline_def updateKline_def js_max_def js_min_def)
  have r0: "init = fst (run init [])" by simp
  from within_window [OF r0 g tin] pre
  have "currentKline (fst (run init (tickers [?d0, ?d1]))) =
          Some (foldTicks (newKline (Ms (bucket 1)) (price ?d0) (last_size ?d0)) [?d1]) \<and>
        emitted (snd (run init (tickers [?d0, ?d1]))) = []"
    by blast
  with val g tin pre show ?thesis by (simp del: run.simps foldTicks.simps getTime.simps)
qed

end
